theory Spec2Isabelle
  imports Main "HOL-Library.Word"
begin

section \<open>Values of the packages the opinion code imports\<close>

text \<open>
  The file \<^verbatim>\<open>packages/arb-validator/rollup/opinion.go\<close> holds the struct
  \<^verbatim>\<open>preparedAssertion\<close> with its \<^verbatim>\<open>Clone\<close>, the opinion thread of the
  \<^verbatim>\<open>ChainObserver\<close> (with the closure \<^verbatim>\<open>updateCurrent\<close>), \<^verbatim>\<open>prepareAssertion\<close>
  and \<^verbatim>\<open>getNodeOpinion\<close>. Hashes are \<^verbatim>\<open>[32]byte\<close>, \<^verbatim>\<open>*big.Int\<close> values are
  unbounded integers, step counts are \<^verbatim>\<open>uint64\<close>.
\<close>

type_synonym bytes32 = "256 word"

definition zeroBytes32 :: bytes32 where
  "zeroBytes32 = 0"

text \<open>A Go panic is a value of the model: every function that can panic returns a sum.\<close>

datatype error = NilDereference | IndexOutOfRange

definition bindE :: "error + 'x \<Rightarrow> ('x \<Rightarrow> error + 'y) \<Rightarrow> error + 'y" where
  "bindE r f = (case r of Inl e \<Rightarrow> Inl e | Inr x \<Rightarrow> f x)"

text \<open>
  \<^verbatim>\<open>structures.ChildType\<close>: the four constants the file uses. Their numeric values are
  declared in package \<^verbatim>\<open>structures\<close>; the numbering is a parameter of the model
  (\<open>childTypeIndex\<close> below).
\<close>

datatype ChildType =
    ValidChildType
  | InvalidPendingChildType
  | InvalidMessagesChildType
  | InvalidExecutionChildType

text \<open>Time bounds are a pair of ticks (lower, upper).\<close>

type_synonym TimeBounds = "int \<times> int"

record AssertionParams =
  NumSteps :: "64 word"
  TimeBounds :: TimeBounds
  ImportedMessageCount :: int

record 's AssertionClaim =
  AfterPendingTop :: bytes32
  ImportedMessagesSlice :: bytes32
  AssertionStub :: 's

record VMProtoData =
  MachineHash :: bytes32
  PendingTop :: bytes32
  PendingCount :: int

text \<open>
  Modelled from the spec: \<^verbatim>\<open>structures.MessageStack\<close> is not in the file; the code reads
  it through \<^verbatim>\<open>GetTopHash()\<close> and \<^verbatim>\<open>TopCount()\<close> only, so a stack is the pair of
  these two observations.
\<close>

record MessageStack =
  GetTopHash :: bytes32
  TopCount :: int

text \<open>
  The collaborators the file calls but does not define, as parameters: the machine
  (\<^verbatim>\<open>ExecuteAssertion\<close> advances the machine it is called on and returns the assertion
  and the number of steps run; the third component is the machine afterwards), the
  assertion's \<^verbatim>\<open>Stub()\<close> and \<^verbatim>\<open>DidInboxInsn\<close>, \<^verbatim>\<open>machine.IsMachineBlocked\<close>, the
  observer's \<^verbatim>\<open>currentTimeBounds()\<close> (read from the latest block number), the hash of
  \<^verbatim>\<open>value.NewEmptyTuple()\<close>, and the numeric value of each \<^verbatim>\<open>ChildType\<close> constant.
  \<open>'m\<close> is a machine's state, \<open>'a\<close> an execution assertion, \<open>'s\<close> an assertion stub,
  \<open>'v\<close> a tuple value of messages.
\<close>

record ('m, 'a, 's, 'v) collab =
  ExecuteAssertion :: "'m \<Rightarrow> 64 word \<Rightarrow> TimeBounds \<Rightarrow> 'v \<Rightarrow> 'a \<times> 64 word \<times> 'm"
  Stub :: "'a \<Rightarrow> 's"
  DidInboxInsn :: "'a \<Rightarrow> bool"
  IsMachineBlocked :: "'m \<Rightarrow> int \<Rightarrow> bool \<Rightarrow> bool"
  currentTimeBounds :: "int \<Rightarrow> TimeBounds"
  emptyTupleHash :: bytes32
  childTypeIndex :: "ChildType \<Rightarrow> nat"

section \<open>The heap of objects behind pointers\<close>

text \<open>
  The struct \<^verbatim>\<open>preparedAssertion\<close> holds pointers (\<^verbatim>\<open>*big.Int\<close>, \<^verbatim>\<open>*VMProtoData\<close>,
  \<^verbatim>\<open>*AssertionParams\<close>, \<^verbatim>\<open>*AssertionClaim\<close>, \<^verbatim>\<open>*ExecutionAssertion\<close>) and a
  \<^verbatim>\<open>machine.Machine\<close>, an interface value that refers to a machine which
  \<^verbatim>\<open>ExecuteAssertion\<close> mutates in place; the thread's maps and channel hold
  \<^verbatim>\<open>*preparedAssertion\<close>. A pointer is a reference into a heap of objects;
  \<open>nextRef\<close> is the next unused reference, so that an allocation is fresh. A nil or
  dangling pointer is a reference with no object of the expected kind behind it.
\<close>

type_synonym ref = nat

text \<open>
  The struct \<^verbatim>\<open>preparedAssertion\<close>: three hashes and the child type by value, and a
  reference for \<^verbatim>\<open>prevDeadline.Val\<close> and for each of the five pointer fields.
\<close>

record preparedAssertion =
  leafHash :: bytes32
  prevPrevLeafHash :: bytes32
  prevDataHash :: bytes32
  prevDeadline :: ref
  prevChildType :: ChildType
  beforeState :: ref
  params :: ref
  claim :: ref
  assertion :: ref
  machine :: ref

datatype ('m, 'a, 's) obj =
    BigInt int
  | ProtoData VMProtoData
  | Params AssertionParams
  | Claim "'s AssertionClaim"
  | Assertion 'a
  | Mach 'm
  | Prepared preparedAssertion

record ('m, 'a, 's) heap =
  objs :: "ref \<Rightarrow> ('m, 'a, 's) obj option"
  nextRef :: ref

definition alloc :: "('m, 'a, 's) heap \<Rightarrow> ('m, 'a, 's) obj \<Rightarrow> ref \<times> ('m, 'a, 's) heap" where
  "alloc H x = (nextRef H, H\<lparr>objs := (objs H)(nextRef H \<mapsto> x), nextRef := Suc (nextRef H)\<rparr>)"

definition store :: "('m, 'a, 's) heap \<Rightarrow> ref \<Rightarrow> ('m, 'a, 's) obj \<Rightarrow> ('m, 'a, 's) heap" where
  "store H r x = H\<lparr>objs := (objs H)(r \<mapsto> x)\<rparr>"

text \<open>Every object of the heap lies below \<open>nextRef\<close>.\<close>

definition heap_ok :: "('m, 'a, 's) heap \<Rightarrow> bool" where
  "heap_ok H = (\<forall>r. objs H r \<noteq> None \<longrightarrow> r < nextRef H)"

definition getBigInt :: "('m, 'a, 's) heap \<Rightarrow> ref \<Rightarrow> error + int" where
  "getBigInt H r = (case objs H r of Some (BigInt i) \<Rightarrow> Inr i | _ \<Rightarrow> Inl NilDereference)"

definition getProtoData :: "('m, 'a, 's) heap \<Rightarrow> ref \<Rightarrow> error + VMProtoData" where
  "getProtoData H r = (case objs H r of Some (ProtoData d) \<Rightarrow> Inr d | _ \<Rightarrow> Inl NilDereference)"

definition getParams :: "('m, 'a, 's) heap \<Rightarrow> ref \<Rightarrow> error + AssertionParams" where
  "getParams H r = (case objs H r of Some (Params p) \<Rightarrow> Inr p | _ \<Rightarrow> Inl NilDereference)"

definition getClaim :: "('m, 'a, 's) heap \<Rightarrow> ref \<Rightarrow> error + 's AssertionClaim" where
  "getClaim H r = (case objs H r of Some (Claim c) \<Rightarrow> Inr c | _ \<Rightarrow> Inl NilDereference)"

definition getAssertion :: "('m, 'a, 's) heap \<Rightarrow> ref \<Rightarrow> error + 'a" where
  "getAssertion H r = (case objs H r of Some (Assertion a) \<Rightarrow> Inr a | _ \<Rightarrow> Inl NilDereference)"

definition getMach :: "('m, 'a, 's) heap \<Rightarrow> ref \<Rightarrow> error + 'm" where
  "getMach H r = (case objs H r of Some (Mach m) \<Rightarrow> Inr m | _ \<Rightarrow> Inl NilDereference)"

definition getPrepared :: "('m, 'a, 's) heap \<Rightarrow> ref \<Rightarrow> error + preparedAssertion" where
  "getPrepared H r = (case objs H r of Some (Prepared p) \<Rightarrow> Inr p | _ \<Rightarrow> Inl NilDereference)"

text \<open>
  \<^verbatim>\<open>mach.ExecuteAssertion(maxSteps, timeBounds, messages)\<close> on a machine reference: the
  machine behind the reference is advanced in place, and the assertion returned is a new
  object.
\<close>

definition executeAssertionAt ::
  "('m, 'a, 's, 'v) collab \<Rightarrow> ('m, 'a, 's) heap \<Rightarrow> ref \<Rightarrow> 64 word \<Rightarrow> TimeBounds \<Rightarrow> 'v
     \<Rightarrow> error + (ref \<times> 64 word \<times> ('m, 'a, 's) heap)" where
  "executeAssertionAt env H mach maxSteps tb messages =
     bindE (getMach H mach) (\<lambda>m.
       case ExecuteAssertion env m maxSteps tb messages of
         (a, stepsRun, m') \<Rightarrow>
           (case alloc (store H mach (Mach m')) (Assertion a) of
              (assertion', H') \<Rightarrow> Inr (assertion', stepsRun, H')))"

section \<open>getNodeOpinion\<close>

text \<open>
  \<^verbatim>\<open>getNodeOpinion(params, claim, prevPendingCount, claimHeight, messageStack,
  messagesVal, prevMach)\<close>. \<^verbatim>\<open>claimHeight\<close> and \<^verbatim>\<open>messageStack\<close> can be nil
  (\<^verbatim>\<open>updateCurrent\<close> passes nil for a height that was not found, and drops the error of
  \<^verbatim>\<open>Substack\<close>); \<^verbatim>\<open>params\<close>, \<^verbatim>\<open>claim\<close> and \<^verbatim>\<open>prevPendingCount\<close> are fresh copies
  at the only call site and are read only, so they are passed by value. The result is
  the pair the Go function returns, and the heap afterwards. (A local name that is also
  a field of a struct is written with a prime.)
\<close>

definition getNodeOpinion ::
  "('m, 'a, 's, 'v) collab \<Rightarrow> AssertionParams \<Rightarrow> 's AssertionClaim \<Rightarrow> int \<Rightarrow> int option
     \<Rightarrow> MessageStack option \<Rightarrow> 'v \<Rightarrow> ref \<Rightarrow> ('m, 'a, 's) heap
     \<Rightarrow> error + ((ChildType \<times> ref option) \<times> ('m, 'a, 's) heap)" where
  "getNodeOpinion env params' claim' prevPendingCount claimHeight messageStack messagesVal prevMach H =
     (let correctAfterPendingTopHeight = prevPendingCount + ImportedMessageCount params' in
      if claimHeight = None \<or> Some correctAfterPendingTopHeight \<noteq> claimHeight
      then Inr ((InvalidPendingChildType, None), H)
      else case messageStack of
        None \<Rightarrow> Inl NilDereference
      | Some ms \<Rightarrow>
          if GetTopHash ms \<noteq> ImportedMessagesSlice claim'
          then Inr ((InvalidMessagesChildType, None), H)
          else bindE (executeAssertionAt env H prevMach (NumSteps params') (TimeBounds params') messagesVal)
            (\<lambda>(assertion', stepsRun, H').
               bindE (getAssertion H' assertion') (\<lambda>a.
                 if NumSteps params' \<noteq> stepsRun \<or> AssertionStub claim' \<noteq> Stub env a
                 then Inr ((InvalidExecutionChildType, None), H')
                 else Inr ((ValidChildType, Some assertion'), H'))))"

text \<open>
  The three checks as the specification words them, each evaluated on its own: the list
  of the classifications of the violated checks, in the fixed order height, message set,
  execution. \<open>m\<close> is the state of the machine the replay starts from.
\<close>

definition violatedChecks ::
  "('m, 'a, 's, 'v) collab \<Rightarrow> AssertionParams \<Rightarrow> 's AssertionClaim \<Rightarrow> int \<Rightarrow> int option
     \<Rightarrow> MessageStack \<Rightarrow> 'v \<Rightarrow> 'm \<Rightarrow> ChildType list" where
  "violatedChecks env params' claim' prevPendingCount claimHeight ms messagesVal m =
     (if claimHeight = None \<or> Some (prevPendingCount + ImportedMessageCount params') \<noteq> claimHeight
      then [InvalidPendingChildType] else [])
     @ (if MessageStack.GetTopHash ms \<noteq> ImportedMessagesSlice claim'
        then [InvalidMessagesChildType] else [])
     @ (case ExecuteAssertion env m (NumSteps params') (TimeBounds params') messagesVal of
          (a, stepsRun, m') \<Rightarrow>
            if stepsRun \<noteq> NumSteps params' \<or> Stub env a \<noteq> AssertionStub claim'
            then [InvalidExecutionChildType] else [])"

text \<open>
  What a caller reads from the result: the child type and the assertion behind the
  returned pointer.
\<close>

definition opinionOf ::
  "error + ((ChildType \<times> ref option) \<times> ('m, 'a, 's) heap) \<Rightarrow> error + (ChildType \<times> 'a option)" where
  "opinionOf r =
     bindE r (\<lambda>((c, ao), H').
       case ao of
         None \<Rightarrow> Inr (c, None)
       | Some ar \<Rightarrow> bindE (getAssertion H' ar) (\<lambda>a. Inr (c, Some a)))"

section \<open>preparedAssertion.Clone\<close>

text \<open>
  Modelled from the spec: \<^verbatim>\<open>VMProtoData.Clone\<close>, \<^verbatim>\<open>AssertionParams.Clone\<close>,
  \<^verbatim>\<open>AssertionClaim.Clone\<close> and \<^verbatim>\<open>Machine.Clone\<close> are not in the file; each is a deep
  copy, that is a new object with the content of the one it is called on, and a panic
  on nil.
\<close>

definition VMProtoData_Clone :: "('m, 'a, 's) heap \<Rightarrow> ref \<Rightarrow> error + (ref \<times> ('m, 'a, 's) heap)" where
  "VMProtoData_Clone H r = bindE (getProtoData H r) (\<lambda>d. Inr (alloc H (ProtoData d)))"

definition AssertionParams_Clone :: "('m, 'a, 's) heap \<Rightarrow> ref \<Rightarrow> error + (ref \<times> ('m, 'a, 's) heap)" where
  "AssertionParams_Clone H r = bindE (getParams H r) (\<lambda>p. Inr (alloc H (Params p)))"

definition AssertionClaim_Clone :: "('m, 'a, 's) heap \<Rightarrow> ref \<Rightarrow> error + (ref \<times> ('m, 'a, 's) heap)" where
  "AssertionClaim_Clone H r = bindE (getClaim H r) (\<lambda>c. Inr (alloc H (Claim c)))"

definition Machine_Clone :: "('m, 'a, 's) heap \<Rightarrow> ref \<Rightarrow> error + (ref \<times> ('m, 'a, 's) heap)" where
  "Machine_Clone H r = bindE (getMach H r) (\<lambda>m. Inr (alloc H (Mach m)))"

text \<open>
  \<^verbatim>\<open>(pa *preparedAssertion) Clone()\<close>: a new struct; \<^verbatim>\<open>new(big.Int).Set\<close> for the
  deadline, \<^verbatim>\<open>Clone()\<close> for \<^verbatim>\<open>beforeState\<close>, \<^verbatim>\<open>params\<close> and \<^verbatim>\<open>claim\<close>, and the
  fields \<^verbatim>\<open>assertion\<close> and \<^verbatim>\<open>machine\<close> assigned as they are.
\<close>

definition Clone :: "('m, 'a, 's) heap \<Rightarrow> ref \<Rightarrow> error + (ref \<times> ('m, 'a, 's) heap)" where
  "Clone H pa =
     bindE (getPrepared H pa) (\<lambda>p.
     bindE (getBigInt H (prevDeadline p)) (\<lambda>d.
       case alloc H (BigInt d) of (deadline', H1) \<Rightarrow>
     bindE (VMProtoData_Clone H1 (beforeState p)) (\<lambda>(beforeState', H2).
     bindE (AssertionParams_Clone H2 (params p)) (\<lambda>(params', H3).
     bindE (AssertionClaim_Clone H3 (claim p)) (\<lambda>(claim', H4).
       Inr (alloc H4 (Prepared
         \<lparr>leafHash = leafHash p,
          prevPrevLeafHash = prevPrevLeafHash p,
          prevDataHash = prevDataHash p,
          prevDeadline = deadline',
          prevChildType = prevChildType p,
          beforeState = beforeState',
          params = params',
          claim = claim',
          assertion = assertion p,
          machine = machine p\<rparr>)))))))"

text \<open>
  The objects a prepared assertion at reference \<open>r\<close> has for itself when it is a deep
  copy: the struct, the deadline, the state before, the parameters and the claim.
\<close>

definition ownRefs :: "preparedAssertion \<Rightarrow> ref \<Rightarrow> ref set" where
  "ownRefs p r = {r, prevDeadline p, beforeState p, params p, claim p}"

section \<open>The chain observer and the dispute graph\<close>

text \<open>
  The fields of \<^verbatim>\<open>Node\<close>, \<^verbatim>\<open>NodeGraph\<close> and \<^verbatim>\<open>ChainObserver\<close> that the file reads or
  writes. A \<^verbatim>\<open>*Node\<close> is a reference into the graph's store of nodes: the map
  \<^verbatim>\<open>nodeFromHash\<close> and the pointer \<^verbatim>\<open>knownValidNode\<close> refer to the same node objects,
  and \<^verbatim>\<open>updateCurrent\<close> writes the fields \<^verbatim>\<open>machine\<close> and \<^verbatim>\<open>assertion\<close> of a node in
  place. \<^verbatim>\<open>successorHashes\<close> is the array \<^verbatim>\<open>[4][32]byte\<close>, as a list. The node's
  deadline, protocol data and disputable node are never written here and are held by
  value; \<^verbatim>\<open>machine\<close>, \<^verbatim>\<open>assertion\<close> and \<^verbatim>\<open>disputable\<close> can be nil.
\<close>

record 's DisputableNode =
  AssertionParams :: AssertionParams
  AssertionClaim :: "'s AssertionClaim"

record 's Node =
  hash :: bytes32
  prevHash :: bytes32
  nodeDataHash :: bytes32
  deadline :: int
  linkType :: ChildType
  vmProtoData :: VMProtoData
  successorHashes :: "bytes32 list"
  machine :: "ref option"
  assertion :: "ref option"
  disputable :: "'s DisputableNode option"
  assertionTxHash :: bytes32

text \<open>
  Modelled from the spec: the graph's leaf set (\<^verbatim>\<open>leaves.IsLeaf\<close>) is not in the file; a
  leaf is a node with no posted successor yet, and the set of leaves is kept by the code
  that builds the graph. \<^verbatim>\<open>MaxExecutionSteps\<close> is the field of the graph's parameters.
\<close>

record 's NodeGraph =
  nodes :: "ref \<Rightarrow> 's Node option"
  nodeFromHash :: "bytes32 \<Rightarrow> ref option"
  leaves :: "ref set"
  MaxExecutionSteps :: "64 word"

text \<open>
  Modelled from the spec: the pending inbox is not in the file; it is the four queries
  the file makes. \<^verbatim>\<open>GetHeight\<close> returns a height and whether it was found;
  \<^verbatim>\<open>Substack\<close> returns a stack and an error, which the callers drop, so the stack can be
  nil.
\<close>

record 'v PendingInbox =
  GetHeight :: "bytes32 \<Rightarrow> int option"
  Substack :: "bytes32 \<Rightarrow> bytes32 \<Rightarrow> MessageStack option"
  ValueForSubseq :: "bytes32 \<Rightarrow> bytes32 \<Rightarrow> 'v"
  GetTopHash :: bytes32

record ('s, 'v) ChainObserver =
  knownValidNode :: ref
  nodeGraph :: "'s NodeGraph"
  pendingInbox :: "'v PendingInbox"
  latestBlockNumber :: int
  listeners :: "nat list"

text \<open>
  What \<^verbatim>\<open>startOpinionUpdateThread\<close> owns: the observer, the heap, and the two maps of
  the goroutine (\<^verbatim>\<open>preparingAssertions\<close> and \<^verbatim>\<open>preparedAssertions\<close>).
\<close>

record ('m, 'a, 's, 'v) opinionThread =
  chain :: "('s, 'v) ChainObserver"
  mem :: "('m, 'a, 's) heap"
  preparingAssertions :: "bytes32 \<Rightarrow> bool option"
  preparedAssertions :: "bytes32 \<Rightarrow> ref option"

text \<open>A call to a listener: the listener and the method called with its arguments.\<close>

datatype notification =
    AdvancedKnownAssertion "ref option" bytes32
  | AdvancedKnownValidNode bytes32
  | AssertionPrepared ref

type_synonym listener_call = "nat \<times> notification"

definition getNode :: "'s NodeGraph \<Rightarrow> ref option \<Rightarrow> error + 's Node" where
  "getNode g r =
     (case r of
        None \<Rightarrow> Inl NilDereference
      | Some n \<Rightarrow> (case nodes g n of None \<Rightarrow> Inl NilDereference | Some node \<Rightarrow> Inr node))"

definition IsLeaf :: "'s NodeGraph \<Rightarrow> ref \<Rightarrow> bool" where
  "IsLeaf g n = (n \<in> leaves g)"

section \<open>updateCurrent\<close>

text \<open>
  The closure \<^verbatim>\<open>successor\<close>: the node of the first non-zero successor hash, in the
  order of the array; nil when all are zero or the map has no node for it.
\<close>

fun firstNonZero :: "bytes32 list \<Rightarrow> bytes32 option" where
  "firstNonZero [] = None"
| "firstNonZero (h # hs) = (if h \<noteq> zeroBytes32 then Some h else firstNonZero hs)"

definition successorOf :: "'s NodeGraph \<Rightarrow> 's Node \<Rightarrow> ref option" where
  "successorOf g currentOpinion =
     (case firstNonZero (successorHashes currentOpinion) of
        None \<Rightarrow> None
      | Some h \<Rightarrow> nodeFromHash g h)"

text \<open>
  The test of the fast path, once a prepared assertion was found for the hash of the
  current node: \<^verbatim>\<open>prepped.params.Equals(successor.disputable.AssertionParams) &&
  prepped.claim.Equals(successor.disputable.AssertionClaim)\<close>. Modelled from the spec:
  \<^verbatim>\<open>Equals\<close> is not in the file; it is equality of the two values.
\<close>

definition preppedMatches ::
  "('m, 'a, 's) heap \<Rightarrow> 's NodeGraph \<Rightarrow> preparedAssertion \<Rightarrow> ref option \<Rightarrow> error + bool" where
  "preppedMatches H g prepped successor =
     bindE (getNode g successor) (\<lambda>succ.
       case disputable succ of
         None \<Rightarrow> Inl NilDereference
       | Some d \<Rightarrow>
           bindE (getParams H (params prepped)) (\<lambda>p.
             if p = AssertionParams d
             then bindE (getClaim H (claim prepped)) (\<lambda>c. Inr (c = AssertionClaim d))
             else Inr False))"

text \<open>
  The else branch: the posted parameters and claim of the successor, the height of the
  claimed top, the messages between the two tops, a clone of the current machine, and
  the call of \<^verbatim>\<open>getNodeOpinion\<close> on that clone. The result is \<^verbatim>\<open>newOpinion\<close>,
  \<^verbatim>\<open>nextMachine\<close>, \<^verbatim>\<open>validExecution\<close> and the heap.
\<close>

definition opinionByExecution ::
  "('m, 'a, 's, 'v) collab \<Rightarrow> ('m, 'a, 's, 'v) opinionThread \<Rightarrow> 's Node \<Rightarrow> ref option
     \<Rightarrow> error + (ChildType \<times> ref \<times> ref option \<times> ('m, 'a, 's) heap)" where
  "opinionByExecution env T currentOpinion successor =
     bindE (getNode (nodeGraph (chain T)) successor) (\<lambda>succ.
       case disputable succ of
         None \<Rightarrow> Inl NilDereference
       | Some d \<Rightarrow>
           (let params' = AssertionParams d;
                claim' = AssertionClaim d;
                claimHeight = GetHeight (pendingInbox (chain T)) (AfterPendingTop claim');
                messageStack = Substack (pendingInbox (chain T))
                  (PendingTop (vmProtoData currentOpinion)) (AfterPendingTop claim');
                messagesVal = ValueForSubseq (pendingInbox (chain T))
                  (PendingTop (vmProtoData currentOpinion)) (AfterPendingTop claim')
            in case machine currentOpinion of
                 None \<Rightarrow> Inl NilDereference
               | Some m \<Rightarrow>
                   bindE (Machine_Clone (mem T) m) (\<lambda>(nextMachine, H1).
                     let prevPendingCount = PendingCount (vmProtoData currentOpinion) in
                     bindE (getNodeOpinion env params' claim' prevPendingCount claimHeight
                              messageStack messagesVal nextMachine H1)
                       (\<lambda>((newOpinion, validExecution), H2).
                          Inr (newOpinion, nextMachine, validExecution, H2)))))"

text \<open>Lines 81 to 108: the fast path when the prepared assertion matches, else execution.\<close>

definition chooseOpinion ::
  "('m, 'a, 's, 'v) collab \<Rightarrow> ('m, 'a, 's, 'v) opinionThread \<Rightarrow> 's Node \<Rightarrow> ref option
     \<Rightarrow> error + (ChildType \<times> ref \<times> ref option \<times> ('m, 'a, 's) heap)" where
  "chooseOpinion env T currentOpinion successor =
     (case preparedAssertions T (hash currentOpinion) of
        None \<Rightarrow> opinionByExecution env T currentOpinion successor
      | Some r \<Rightarrow>
          bindE (getPrepared (mem T) r) (\<lambda>prepped.
          bindE (preppedMatches (mem T) (nodeGraph (chain T)) prepped successor) (\<lambda>same.
            if same
            then Inr (ValidChildType, preparedAssertion.machine prepped,
                      Some (preparedAssertion.assertion prepped), mem T)
            else opinionByExecution env T currentOpinion successor)))"

text \<open>
  Lines 113 to 137, once \<^verbatim>\<open>correctNode\<close> was found: the listeners are told of the valid
  assertion, the node gets its machine (and assertion), the pointer moves, and the
  listeners are told of the new known valid node.
\<close>

definition advanceTo ::
  "('m, 'a, 's, 'v) opinionThread \<Rightarrow> 's Node \<Rightarrow> ref \<Rightarrow> ChildType \<Rightarrow> ref \<Rightarrow> ref option
     \<Rightarrow> error + (('m, 'a, 's, 'v) opinionThread \<times> listener_call list)" where
  "advanceTo T currentOpinion correctNode newOpinion nextMachine validExecution =
     (let g = nodeGraph (chain T) in
      bindE (getNode g (Some correctNode)) (\<lambda>cn.
        let told = (if newOpinion = ValidChildType
                    then map (\<lambda>lis. (lis, AdvancedKnownAssertion validExecution (assertionTxHash cn)))
                           (listeners (chain T))
                    else [])
        in bindE
             (if newOpinion = ValidChildType
              then Inr (cn\<lparr>machine := Some nextMachine, assertion := validExecution\<rparr>, mem T)
              else case machine currentOpinion of
                     None \<Rightarrow> Inl NilDereference
                   | Some m \<Rightarrow>
                       bindE (Machine_Clone (mem T) m) (\<lambda>(m', H). Inr (cn\<lparr>machine := Some m'\<rparr>, H)))
             (\<lambda>(cn', H).
                Inr (T\<lparr>chain := (chain T)
                          \<lparr>knownValidNode := correctNode,
                           nodeGraph := g\<lparr>nodes := (nodes g)(correctNode \<mapsto> cn')\<rparr>\<rparr>,
                        mem := H\<rparr>,
                     told @ map (\<lambda>listener. (listener, AdvancedKnownValidNode (hash cn')))
                              (listeners (chain T))))))"

text \<open>
  The closure \<^verbatim>\<open>updateCurrent\<close>. The index \<^verbatim>\<open>successorHashes[newOpinion]\<close> panics when
  the value of the child type is not below the length of the array.
\<close>

definition updateCurrent ::
  "('m, 'a, 's, 'v) collab \<Rightarrow> ('m, 'a, 's, 'v) opinionThread
     \<Rightarrow> error + (('m, 'a, 's, 'v) opinionThread \<times> listener_call list)" where
  "updateCurrent env T =
     (let g = nodeGraph (chain T) in
      bindE (getNode g (Some (knownValidNode (chain T)))) (\<lambda>currentOpinion.
        let successorHashes' = successorHashes currentOpinion;
            successor = successorOf g currentOpinion
        in bindE (chooseOpinion env T currentOpinion successor)
             (\<lambda>(newOpinion, nextMachine, validExecution, H).
                let T1 = T\<lparr>mem := H, preparingAssertions := Map.empty,
                            preparedAssertions := Map.empty\<rparr>
                in if childTypeIndex env newOpinion < length successorHashes'
                   then (case nodeFromHash g (successorHashes' ! childTypeIndex env newOpinion) of
                           None \<Rightarrow> Inr (T1, [])
                         | Some correctNode \<Rightarrow>
                             advanceTo T1 currentOpinion correctNode newOpinion nextMachine
                               validExecution)
                   else Inl IndexOutOfRange)))"

section \<open>prepareAssertion\<close>

text \<open>
  \<^verbatim>\<open>(chain *ChainObserver) prepareAssertion()\<close>, run on a snapshot of the observer: it
  returns nil when the known valid node is not a leaf, and else a new prepared assertion.
  \<^verbatim>\<open>PrevHash()\<close> reads the field \<^verbatim>\<open>prevHash\<close>; the log line is left out. The message
  stack is dereferenced only when the assertion did an inbox instruction.
\<close>

definition prepareAssertion ::
  "('m, 'a, 's, 'v) collab \<Rightarrow> ('s, 'v) ChainObserver \<Rightarrow> ('m, 'a, 's) heap
     \<Rightarrow> error + (ref option \<times> ('m, 'a, 's) heap)" where
  "prepareAssertion env C H =
     bindE (getNode (nodeGraph C) (Some (knownValidNode C))) (\<lambda>currentOpinion.
       let currentOpinionHash = hash currentOpinion;
           prevPrevLeafHash' = prevHash currentOpinion;
           prevDataHash' = nodeDataHash currentOpinion
       in case alloc H (BigInt (deadline currentOpinion)) of (prevDeadline', H1) \<Rightarrow>
       let prevChildType' = linkType currentOpinion
       in case alloc H1 (ProtoData (vmProtoData currentOpinion)) of (beforeState', H2) \<Rightarrow>
       if \<not> IsLeaf (nodeGraph C) (knownValidNode C) then Inr (None, H2)
       else
         let afterPendingTop = GetTopHash (pendingInbox C);
             beforePendingTop = PendingTop (vmProtoData currentOpinion);
             messageStack = Substack (pendingInbox C) beforePendingTop afterPendingTop;
             messagesVal = ValueForSubseq (pendingInbox C) beforePendingTop afterPendingTop
         in case machine currentOpinion of
              None \<Rightarrow> Inl NilDereference
            | Some m \<Rightarrow>
                bindE (Machine_Clone H2 m) (\<lambda>(mach, H3).
                  let timeBounds = currentTimeBounds env (latestBlockNumber C) in
                  bindE (executeAssertionAt env H3 mach (MaxExecutionSteps (nodeGraph C))
                           timeBounds messagesVal)
                    (\<lambda>(assertion', stepsRun, H4).
                       bindE (getAssertion H4 assertion') (\<lambda>a.
                       bindE
                         (if DidInboxInsn env a
                          then (case messageStack of
                                  None \<Rightarrow> Inl NilDereference
                                | Some ms \<Rightarrow>
                                    Inr (\<lparr>NumSteps = stepsRun, TimeBounds = timeBounds,
                                          ImportedMessageCount = TopCount ms\<rparr>,
                                         \<lparr>AfterPendingTop = afterPendingTop,
                                          ImportedMessagesSlice = MessageStack.GetTopHash ms,
                                          AssertionStub = Stub env a\<rparr>))
                          else Inr (\<lparr>NumSteps = stepsRun, TimeBounds = timeBounds,
                                     ImportedMessageCount = 0\<rparr>,
                                    \<lparr>AfterPendingTop = beforePendingTop,
                                     ImportedMessagesSlice = emptyTupleHash env,
                                     AssertionStub = Stub env a\<rparr>))
                         (\<lambda>(params', claim').
                            case alloc H4 (Params params') of (paramsRef, H5) \<Rightarrow>
                            case alloc H5 (Claim claim') of (claimRef, H6) \<Rightarrow>
                            case alloc H6 (Prepared
                                   \<lparr>leafHash = currentOpinionHash,
                                    prevPrevLeafHash = prevPrevLeafHash',
                                    prevDataHash = prevDataHash',
                                    prevDeadline = prevDeadline',
                                    prevChildType = prevChildType',
                                    beforeState = beforeState',
                                    params = paramsRef,
                                    claim = claimRef,
                                    assertion = assertion',
                                    machine = mach\<rparr>) of
                              (prepared, H7) \<Rightarrow> Inr (Some prepared, H7))))))"

section \<open>The loop of startOpinionUpdateThread\<close>

text \<open>
  The catch-up loop \<^verbatim>\<open>for !chain.nodeGraph.leaves.IsLeaf(chain.knownValidNode)
  { updateCurrent(); ... }\<close> need not end (an \<^verbatim>\<open>updateCurrent\<close> that finds no node
  leaves the pointer where it is), so it runs on fuel: the number of times the loop
  condition may be evaluated; \<open>None\<close> is a loop still running when the fuel is used up.
  The calls to the listeners are collected in order.
\<close>

fun catchUp ::
  "nat \<Rightarrow> ('m, 'a, 's, 'v) collab \<Rightarrow> ('m, 'a, 's, 'v) opinionThread
     \<Rightarrow> (error + (('m, 'a, 's, 'v) opinionThread \<times> listener_call list)) option" where
  "catchUp 0 env T = None"
| "catchUp (Suc n) env T =
     (if IsLeaf (nodeGraph (chain T)) (knownValidNode (chain T)) then Some (Inr (T, []))
      else case updateCurrent env T of
             Inl e \<Rightarrow> Some (Inl e)
           | Inr (T', calls) \<Rightarrow>
               (case catchUp n env T' of
                  None \<Rightarrow> None
                | Some (Inl e) \<Rightarrow> Some (Inl e)
                | Some (Inr (T'', calls')) \<Rightarrow> Some (Inr (T'', calls @ calls'))))"

text \<open>
  \<^verbatim>\<open>for _, lis := range chain.listeners { lis.AssertionPrepared(prepared.Clone()) }\<close>:
  each listener gets a clone of its own.
\<close>

fun notifyPrepared ::
  "nat list \<Rightarrow> ref \<Rightarrow> ('m, 'a, 's) heap \<Rightarrow> error + (listener_call list \<times> ('m, 'a, 's) heap)" where
  "notifyPrepared [] prepared H = Inr ([], H)"
| "notifyPrepared (lis # rest) prepared H =
     bindE (Clone H prepared) (\<lambda>(c, H1).
       bindE (notifyPrepared rest prepared H1) (\<lambda>(calls, H2).
         Inr ((lis, AssertionPrepared c) # calls, H2)))"

text \<open>
  The rest of the ticker case (\<^verbatim>\<open>// Prepare next assertion\<close>). The boolean of the
  result says whether a goroutine running \<^verbatim>\<open>prepareAssertion\<close> was started; its result
  comes back later through the channel.
\<close>

definition prepareNext ::
  "('m, 'a, 's, 'v) collab \<Rightarrow> ('m, 'a, 's, 'v) opinionThread
     \<Rightarrow> error + (('m, 'a, 's, 'v) opinionThread \<times> listener_call list \<times> bool)" where
  "prepareNext env T =
     (let g = nodeGraph (chain T) in
      bindE (getNode g (Some (knownValidNode (chain T)))) (\<lambda>node.
        case preparingAssertions T (hash node) of
          None \<Rightarrow>
            (let newMessages = (PendingTop (vmProtoData node) \<noteq> GetTopHash (pendingInbox (chain T)))
             in case machine node of
                  None \<Rightarrow> Inl NilDereference
                | Some m \<Rightarrow>
                    bindE (getMach (mem T) m) (\<lambda>ms.
                      if \<not> IsMachineBlocked env ms (latestBlockNumber (chain T)) newMessages
                      then Inr (T\<lparr>preparingAssertions := (preparingAssertions T)(hash node \<mapsto> True)\<rparr>,
                                [], True)
                      else Inr (T, [], False)))
        | Some isPreparing \<Rightarrow>
            (case preparedAssertions T (hash node) of
               None \<Rightarrow> Inr (T, [], False)
             | Some prepared \<Rightarrow>
                 if IsLeaf g (knownValidNode (chain T))
                 then bindE (notifyPrepared (listeners (chain T)) prepared (mem T))
                        (\<lambda>(calls, H). Inr (T\<lparr>mem := H\<rparr>, calls, False))
                 else Inr (T, [], False))))"

text \<open>
  One round of the \<^verbatim>\<open>select\<close>: the context is done (the \<^verbatim>\<open>break\<close> leaves the
  \<^verbatim>\<open>select\<close>, not the loop), a prepared assertion arrives on the channel (nil when
  \<^verbatim>\<open>prepareAssertion\<close> returned nil), or the ticker fires.
\<close>

datatype input = CtxDone | ChanReceive "ref option" | TickerC

definition threadStep ::
  "nat \<Rightarrow> ('m, 'a, 's, 'v) collab \<Rightarrow> input \<Rightarrow> ('m, 'a, 's, 'v) opinionThread
     \<Rightarrow> (error + (('m, 'a, 's, 'v) opinionThread \<times> listener_call list \<times> bool)) option" where
  "threadStep fuel env i T =
     (case i of
        CtxDone \<Rightarrow> Some (Inr (T, [], False))
      | ChanReceive r \<Rightarrow>
          Some (case r of
                  None \<Rightarrow> Inl NilDereference
                | Some prepped \<Rightarrow>
                    bindE (getPrepared (mem T) prepped) (\<lambda>p.
                      Inr (T\<lparr>preparedAssertions := (preparedAssertions T)(leafHash p \<mapsto> prepped)\<rparr>,
                           [], False)))
      | TickerC \<Rightarrow>
          (case catchUp fuel env T of
             None \<Rightarrow> None
           | Some (Inl e) \<Rightarrow> Some (Inl e)
           | Some (Inr (T1, calls)) \<Rightarrow>
               Some (bindE (prepareNext env T1) (\<lambda>(T2, calls2, started).
                       Inr (T2, calls @ calls2, started)))))"

section \<open>Direct successors and depth\<close>

text \<open>
  Modelled from the spec: a direct successor of a node is a node whose hash is stored in
  one of the successor hash slots of that node, and the depth of a node from a root is the
  number of successor edges on a path from the root to it.
\<close>

definition directSuccessor :: "'s NodeGraph \<Rightarrow> ref \<Rightarrow> ref \<Rightarrow> bool" where
  "directSuccessor g a b =
     (case nodes g a of
        None \<Rightarrow> False
      | Some na \<Rightarrow> (case nodes g b of None \<Rightarrow> False | Some nb \<Rightarrow> hash nb \<in> set (successorHashes na)))"

inductive depthFrom :: "'s NodeGraph \<Rightarrow> ref \<Rightarrow> ref \<Rightarrow> nat \<Rightarrow> bool" for g root where
  depth_root: "depthFrom g root root 0"
| depth_step: "depthFrom g root a d \<Longrightarrow> directSuccessor g a b \<Longrightarrow> depthFrom g root b (Suc d)"

section \<open>What the listeners are shown\<close>

text \<open>
  Modelled from the spec: a prepared assertion is surfaced to the observers when it is the
  argument of a call of \<^verbatim>\<open>AssertionPrepared\<close>; these are the references surfaced by a list
  of calls, in order.
\<close>

definition surfaced :: "listener_call list \<Rightarrow> ref list" where
  "surfaced calls =
     concat (map (\<lambda>(lis, n). case n of AssertionPrepared c \<Rightarrow> [c] | _ \<Rightarrow> []) calls)"

section \<open>Sample inputs\<close>

text \<open>
  A small machine for concrete runs: its state is a step counter that halts at 100; the
  assertion of a run is the counter it ends on, and the stub of an assertion is the
  assertion itself. The \<^verbatim>\<open>ChildType\<close> constants are numbered 0 to 3.
\<close>

definition demo_env :: "(nat, nat, nat, unit) collab" where
  "demo_env =
     \<lparr>ExecuteAssertion = (\<lambda>m n tb v. let k = min (unat n) (100 - m) in (m + k, of_nat k, m + k)),
      Stub = (\<lambda>a. a),
      DidInboxInsn = (\<lambda>a. 50 < a),
      IsMachineBlocked = (\<lambda>m b new. 100 \<le> m \<and> \<not> new),
      currentTimeBounds = (\<lambda>b. (b, b + 10)),
      emptyTupleHash = 7,
      childTypeIndex = (\<lambda>c. case c of
          InvalidPendingChildType \<Rightarrow> 0
        | InvalidMessagesChildType \<Rightarrow> 1
        | InvalidExecutionChildType \<Rightarrow> 2
        | ValidChildType \<Rightarrow> 3)\<rparr>"

definition demo_heap :: "(nat, nat, nat) heap" where
  "demo_heap = \<lparr>objs = [0 \<mapsto> Mach 0], nextRef = 1\<rparr>"

definition demo_params :: AssertionParams where
  "demo_params = \<lparr>NumSteps = 1, TimeBounds = (0, 10), ImportedMessageCount = 2\<rparr>"

definition demo_claim :: "nat AssertionClaim" where
  "demo_claim = \<lparr>AfterPendingTop = 5, ImportedMessagesSlice = 9, AssertionStub = 1\<rparr>"

definition demo_stack :: MessageStack where
  "demo_stack = \<lparr>MessageStack.GetTopHash = 9, TopCount = 2\<rparr>"

definition demo_heap2 :: "(nat, nat, nat) heap" where
  "demo_heap2 = \<lparr>objs = [0 \<mapsto> BigInt 4, 3 \<mapsto> Mach 0], nextRef = 4\<rparr>"

definition demo_heap_after :: "(nat, nat, nat) heap" where
  "demo_heap_after = \<lparr>objs = [0 \<mapsto> Mach 1, 1 \<mapsto> Assertion 1], nextRef = 2\<rparr>"

text \<open>
  A prepared assertion at reference 6 with its objects at references 0 to 5, and the heap
  after cloning it: the clone is at reference 11.
\<close>

definition demo_pa :: preparedAssertion where
  "demo_pa = \<lparr>leafHash = 21, prevPrevLeafHash = 20, prevDataHash = 22, prevDeadline = 1,
     prevChildType = ValidChildType, beforeState = 2, params = 3, claim = 4,
     assertion = 5, machine = 0\<rparr>"

definition demo_pa_clone :: preparedAssertion where
  "demo_pa_clone = \<lparr>leafHash = 21, prevPrevLeafHash = 20, prevDataHash = 22, prevDeadline = 7,
     prevChildType = ValidChildType, beforeState = 8, params = 9, claim = 10,
     assertion = 5, machine = 0\<rparr>"

definition demo_pa_heap :: "(nat, nat, nat) heap" where
  "demo_pa_heap =
     \<lparr>objs = [0 \<mapsto> Mach 1, 1 \<mapsto> BigInt 10,
              2 \<mapsto> ProtoData \<lparr>MachineHash = 30, PendingTop = 3, PendingCount = 5\<rparr>,
              3 \<mapsto> Params demo_params, 4 \<mapsto> Claim demo_claim, 5 \<mapsto> Assertion 1,
              6 \<mapsto> Prepared demo_pa],
      nextRef = 7\<rparr>"

definition demo_clone_heap :: "(nat, nat, nat) heap" where
  "demo_clone_heap =
     \<lparr>objs = (objs demo_pa_heap)
        (7 \<mapsto> BigInt 10,
         8 \<mapsto> ProtoData \<lparr>MachineHash = 30, PendingTop = 3, PendingCount = 5\<rparr>,
         9 \<mapsto> Params demo_params, 10 \<mapsto> Claim demo_claim, 11 \<mapsto> Prepared demo_pa_clone),
      nextRef = 12\<rparr>"

text \<open>
  A dispute graph for concrete runs of \<^verbatim>\<open>updateCurrent\<close>: the known valid node 0 (hash
  21) has the four successor hashes 31 to 34 and the machine at reference 0; the
  successors posted carry \<open>demo_params\<close> and \<open>demo_claim\<close>, which the machine confirms, so
  the opinion is \<^verbatim>\<open>ValidChildType\<close> and the hash looked up is 34. In
  \<open>demo_graph_missing\<close> no node is registered for that hash.
\<close>

definition demo_node0 :: "nat Node" where
  "demo_node0 =
     \<lparr>hash = 21, prevHash = 20, nodeDataHash = 22, deadline = 10, linkType = ValidChildType,
      vmProtoData = \<lparr>MachineHash = 30, PendingTop = 3, PendingCount = 5\<rparr>,
      successorHashes = [31, 32, 33, 34], machine = Some 0, assertion = None,
      disputable = None, assertionTxHash = 40\<rparr>"

definition demo_succ :: "bytes32 \<Rightarrow> ChildType \<Rightarrow> nat Node" where
  "demo_succ h lt =
     \<lparr>hash = h, prevHash = 21, nodeDataHash = 23, deadline = 20, linkType = lt,
      vmProtoData = \<lparr>MachineHash = 31, PendingTop = 5, PendingCount = 7\<rparr>,
      successorHashes = [0, 0, 0, 0], machine = None, assertion = None,
      disputable = Some \<lparr>AssertionParams = demo_params, AssertionClaim = demo_claim\<rparr>,
      assertionTxHash = 41\<rparr>"

definition demo_graph_missing :: "nat NodeGraph" where
  "demo_graph_missing =
     \<lparr>nodes = [0 \<mapsto> demo_node0, 1 \<mapsto> demo_succ 31 InvalidPendingChildType],
      nodeFromHash = [21 \<mapsto> 0, 31 \<mapsto> 1], leaves = {1}, MaxExecutionSteps = 1000\<rparr>"

definition demo_graph :: "nat NodeGraph" where
  "demo_graph =
     \<lparr>nodes = [0 \<mapsto> demo_node0, 1 \<mapsto> demo_succ 31 InvalidPendingChildType,
               2 \<mapsto> demo_succ 34 ValidChildType],
      nodeFromHash = [21 \<mapsto> 0, 31 \<mapsto> 1, 34 \<mapsto> 2], leaves = {1, 2}, MaxExecutionSteps = 1000\<rparr>"

definition demo_inbox :: "unit PendingInbox" where
  "demo_inbox =
     \<lparr>GetHeight = [5 \<mapsto> 7],
      Substack = (\<lambda>a b. if a = 3 \<and> b = 5 then Some demo_stack else None),
      ValueForSubseq = (\<lambda>a b. ()),
      GetTopHash = 5\<rparr>"

definition demo_chain :: "nat NodeGraph \<Rightarrow> (nat, unit) ChainObserver" where
  "demo_chain g =
     \<lparr>knownValidNode = 0, nodeGraph = g, pendingInbox = demo_inbox, latestBlockNumber = 100,
      listeners = [1, 2]\<rparr>"

definition demo_thread :: "nat NodeGraph \<Rightarrow> (nat, nat, nat, unit) opinionThread" where
  "demo_thread g =
     \<lparr>chain = demo_chain g, mem = demo_heap, preparingAssertions = [21 \<mapsto> True],
      preparedAssertions = Map.empty\<rparr>"

definition demo_mem1 :: "(nat, nat, nat) heap" where
  "demo_mem1 = \<lparr>objs = [0 \<mapsto> Mach 0, 1 \<mapsto> Mach 1, 2 \<mapsto> Assertion 1], nextRef = 3\<rparr>"

text \<open>
  The thread after a run of \<^verbatim>\<open>updateCurrent\<close> on \<open>demo_graph_missing\<close>, with the heap
  the run left, and the heap after a second run.
\<close>

definition demo_mem2 :: "(nat, nat, nat) heap" where
  "demo_mem2 =
     \<lparr>objs = [0 \<mapsto> Mach 0, 1 \<mapsto> Mach 1, 2 \<mapsto> Assertion 1, 3 \<mapsto> Mach 1, 4 \<mapsto> Assertion 1],
      nextRef = 5\<rparr>"

definition demo_retry :: "(nat, nat, nat) heap \<Rightarrow> (nat, nat, nat, unit) opinionThread" where
  "demo_retry H =
     \<lparr>chain = demo_chain demo_graph_missing, mem = H, preparingAssertions = Map.empty,
      preparedAssertions = Map.empty\<rparr>"

text \<open>
  The thread after a run of \<^verbatim>\<open>updateCurrent\<close> on \<open>demo_graph\<close>: the known valid node is
  node 2, which got the machine run and its assertion, and the two listeners were told of
  the assertion and of the new node.
\<close>

definition demo_node2 :: "nat Node" where
  "demo_node2 = (demo_succ 34 ValidChildType)\<lparr>machine := Some 1, assertion := Some 2\<rparr>"

definition demo_advanced :: "(nat, nat, nat, unit) opinionThread" where
  "demo_advanced =
     \<lparr>chain = (demo_chain demo_graph)
        \<lparr>knownValidNode := 2,
         nodeGraph := demo_graph\<lparr>nodes := (nodes demo_graph)(2 \<mapsto> demo_node2)\<rparr>\<rparr>,
      mem = demo_mem1, preparingAssertions = Map.empty, preparedAssertions = Map.empty\<rparr>"

definition demo_calls :: "listener_call list" where
  "demo_calls =
     [(1, AdvancedKnownAssertion (Some 2) 41), (2, AdvancedKnownAssertion (Some 2) 41),
      (1, AdvancedKnownValidNode 34), (2, AdvancedKnownValidNode 34)]"

text \<open>
  An observer whose known valid node 0 is a leaf, with a bound on the steps of an
  execution, and the heap that \<^verbatim>\<open>prepareAssertion\<close> leaves on \<open>demo_heap\<close>: the clone of
  the machine at reference 3, the assertion at 4, the parameters at 5, the claim at 6 and
  the prepared assertion at 7. With a bound of 1000 steps the machine halts at 100 and
  has read the inbox; with a bound of 10 steps it has not.
\<close>

definition demo_leaf_chain :: "64 word \<Rightarrow> (nat, unit) ChainObserver" where
  "demo_leaf_chain steps =
     \<lparr>knownValidNode = 0, nodeGraph = demo_graph\<lparr>leaves := {0}, MaxExecutionSteps := steps\<rparr>,
      pendingInbox = demo_inbox, latestBlockNumber = 100, listeners = [1, 2]\<rparr>"

definition demo_prepared :: preparedAssertion where
  "demo_prepared =
     \<lparr>leafHash = 21, prevPrevLeafHash = 20, prevDataHash = 22, prevDeadline = 1,
      prevChildType = ValidChildType, beforeState = 2, params = 5, claim = 6,
      assertion = 4, machine = 3\<rparr>"

definition demo_prepared_heap ::
  "nat \<Rightarrow> AssertionParams \<Rightarrow> nat AssertionClaim \<Rightarrow> (nat, nat, nat) heap" where
  "demo_prepared_heap a ps cl =
     \<lparr>objs = [0 \<mapsto> Mach 0, 1 \<mapsto> BigInt 10,
              2 \<mapsto> ProtoData \<lparr>MachineHash = 30, PendingTop = 3, PendingCount = 5\<rparr>,
              3 \<mapsto> Mach a, 4 \<mapsto> Assertion a, 5 \<mapsto> Params ps, 6 \<mapsto> Claim cl,
              7 \<mapsto> Prepared demo_prepared],
      nextRef = 8\<rparr>"

definition demo_params100 :: AssertionParams where
  "demo_params100 = \<lparr>NumSteps = 100, TimeBounds = (100, 110), ImportedMessageCount = 2\<rparr>"

definition demo_claim100 :: "nat AssertionClaim" where
  "demo_claim100 = \<lparr>AfterPendingTop = 5, ImportedMessagesSlice = 9, AssertionStub = 100\<rparr>"

definition demo_params10 :: AssertionParams where
  "demo_params10 = \<lparr>NumSteps = 10, TimeBounds = (100, 110), ImportedMessageCount = 0\<rparr>"

definition demo_claim10 :: "nat AssertionClaim" where
  "demo_claim10 = \<lparr>AfterPendingTop = 3, ImportedMessagesSlice = 7, AssertionStub = 10\<rparr>"

text \<open>
  Two threads on the heap of the prepared assertion for leaf 21 (\<open>demo_pa\<close>, at reference
  6): in \<open>demo_stale\<close> the known valid node is node 2, of hash 34, so the leaf of the
  prepared assertion is behind the pointer, and the maps are empty; in \<open>demo_current\<close> the
  known valid node is the leaf 0, of hash 21, its build was started and its result is in
  the map, and there is one listener.
\<close>

definition demo_stale :: "(nat, nat, nat, unit) opinionThread" where
  "demo_stale =
     \<lparr>chain = (demo_chain demo_graph)\<lparr>knownValidNode := 2\<rparr>, mem = demo_pa_heap,
      preparingAssertions = Map.empty, preparedAssertions = Map.empty\<rparr>"

definition demo_current :: "(nat, nat, nat, unit) opinionThread" where
  "demo_current =
     \<lparr>chain = (demo_leaf_chain 10)\<lparr>listeners := [1]\<rparr>, mem = demo_pa_heap,
      preparingAssertions = [21 \<mapsto> True], preparedAssertions = [21 \<mapsto> 6]\<rparr>"

section \<open>Theorems about getNodeOpinion\<close>

text \<open>
  C3: \<^verbatim>\<open>getNodeOpinion\<close> returns \<^verbatim>\<open>(InvalidPendingChildType, nil)\<close> if and only if
  \<^verbatim>\<open>claimHeight\<close> is nil or \<open>prevPendingCount + params.ImportedMessageCount\<close> differs
  from it; it then leaves the heap as it was. Whether the message stack is nil and
  whether the machine reference is valid does not matter.
\<close>

theorem getNodeOpinion_InvalidPending_iff:
  "((\<exists>H'. getNodeOpinion env params' claim' prevPendingCount claimHeight messageStack messagesVal prevMach H
        = Inr ((InvalidPendingChildType, None), H'))
      = (claimHeight = None \<or> Some (prevPendingCount + ImportedMessageCount params') \<noteq> claimHeight))
   \<and> ((getNodeOpinion env params' claim' prevPendingCount claimHeight messageStack messagesVal prevMach H
        = Inr ((InvalidPendingChildType, None), H))
      = (claimHeight = None \<or> Some (prevPendingCount + ImportedMessageCount params') \<noteq> claimHeight))"
  by (auto simp: getNodeOpinion_def bindE_def Let_def
      split: option.splits sum.splits prod.splits if_splits)

text \<open>
  Scenario A of the spec: pending count 5, two imported messages claimed, the inbox
  height at the claimed top is 8.
\<close>

theorem getNodeOpinion_InvalidPending_witness:
  "getNodeOpinion demo_env \<lparr>NumSteps = 1, TimeBounds = (0, 10), ImportedMessageCount = 2\<rparr>
     \<lparr>AfterPendingTop = 5, ImportedMessagesSlice = 9, AssertionStub = 1\<rparr>
     5 (Some 8) (Some \<lparr>MessageStack.GetTopHash = 9, TopCount = 2\<rparr>) () 0 demo_heap
   = Inr ((InvalidPendingChildType, None), demo_heap)"
  using getNodeOpinion_InvalidPending_iff
    [of demo_env "\<lparr>NumSteps = 1, TimeBounds = (0, 10), ImportedMessageCount = 2\<rparr>"
        "\<lparr>AfterPendingTop = 5, ImportedMessagesSlice = 9, AssertionStub = 1\<rparr>"
        5 "Some 8" "Some \<lparr>MessageStack.GetTopHash = 9, TopCount = 2\<rparr>" "()" 0 demo_heap]
  by simp

subsection \<open>Evaluation lemmas\<close>

lemma getAssertion_alloc:
  "getAssertion (snd (alloc (store H r x) (Assertion a))) (nextRef H) = Inr a"
  by (simp add: alloc_def store_def getAssertion_def)

lemma executeAssertionAt_Inr:
  "getMach H mach = Inr m \<Longrightarrow> ExecuteAssertion env m n tb mv = (a, stepsRun, m') \<Longrightarrow>
   executeAssertionAt env H mach n tb mv
     = Inr (nextRef H, stepsRun, snd (alloc (store H mach (Mach m')) (Assertion a)))"
  by (simp add: executeAssertionAt_def bindE_def alloc_def store_def)

lemma executeAssertionAt_Inl:
  "getMach H mach = Inl e \<Longrightarrow> executeAssertionAt env H mach n tb mv = Inl e"
  by (simp add: executeAssertionAt_def bindE_def)

lemma demo_exec:
  "ExecuteAssertion demo_env m n tb v = (m + min (unat n) (100 - m), of_nat (min (unat n) (100 - m)), m + min (unat n) (100 - m))"
  by (simp add: demo_env_def Let_def)

lemma demo_stub: "Stub demo_env a = a"
  by (simp add: demo_env_def)

lemma demo_getMach: "getMach demo_heap 0 = Inr 0"
  by (simp add: demo_heap_def getMach_def)

text \<open>
  C2: when a check is violated, the child type returned is that of the first violated
  check in the order height, message set, execution, with no assertion; when more than
  one check is violated the heap is returned as it was, so the machine was not run.
\<close>

theorem getNodeOpinion_first_violated:
  assumes "getMach H prevMach = Inr m"
    and "violatedChecks env params' claim' prevPendingCount claimHeight ms messagesVal m \<noteq> []"
  shows "map_sum id fst
           (getNodeOpinion env params' claim' prevPendingCount claimHeight (Some ms) messagesVal prevMach H)
         = Inr (hd (violatedChecks env params' claim' prevPendingCount claimHeight ms messagesVal m), None)
       \<and> (1 < length (violatedChecks env params' claim' prevPendingCount claimHeight ms messagesVal m) \<longrightarrow>
            getNodeOpinion env params' claim' prevPendingCount claimHeight (Some ms) messagesVal prevMach H
            = Inr ((hd (violatedChecks env params' claim' prevPendingCount claimHeight ms messagesVal m), None), H))"
proof (cases "ExecuteAssertion env m (NumSteps params') (TimeBounds params') messagesVal")
  case (fields a stepsRun m')
  note ex = executeAssertionAt_Inr [OF assms(1) fields]
  show ?thesis
    using assms(2) fields
    by (auto simp: getNodeOpinion_def violatedChecks_def ex bindE_def getAssertion_alloc
        split: if_splits)
qed

lemma demo_violated:
  "violatedChecks demo_env demo_params (demo_claim\<lparr>ImportedMessagesSlice := 4\<rparr>) 5 (Some 8) demo_stack () 0
   = [InvalidPendingChildType, InvalidMessagesChildType]"
  by (simp add: violatedChecks_def demo_exec demo_stub demo_params_def demo_claim_def demo_stack_def)

theorem getNodeOpinion_first_violated_witness:
  "getNodeOpinion demo_env demo_params (demo_claim\<lparr>ImportedMessagesSlice := 4\<rparr>) 5 (Some 8)
     (Some demo_stack) () 0 demo_heap
   = Inr ((InvalidPendingChildType, None), demo_heap)"
  using getNodeOpinion_first_violated [OF demo_getMach, of demo_env demo_params "demo_claim\<lparr>ImportedMessagesSlice := 4\<rparr>"
      5 "Some 8" demo_stack "()"]
  by (simp add: demo_violated)

text \<open>
  C4: when the height check and the message check pass, the result is
  \<^verbatim>\<open>(InvalidExecutionChildType, nil)\<close> if the steps run differ from \<^verbatim>\<open>params.NumSteps\<close>
  or the stub of the assertion differs from \<^verbatim>\<open>claim.AssertionStub\<close>, and otherwise
  \<^verbatim>\<open>(ValidChildType, assertion)\<close>, where the stub of the assertion returned equals the
  committed stub.
\<close>

theorem getNodeOpinion_execution_check:
  assumes "claimHeight = Some (prevPendingCount + ImportedMessageCount params')"
    and "MessageStack.GetTopHash ms = ImportedMessagesSlice claim'"
    and "getMach H prevMach = Inr m"
    and "ExecuteAssertion env m (NumSteps params') (TimeBounds params') messagesVal = (a, stepsRun, m')"
  shows "(stepsRun \<noteq> NumSteps params' \<or> Stub env a \<noteq> AssertionStub claim' \<longrightarrow>
            getNodeOpinion env params' claim' prevPendingCount claimHeight (Some ms) messagesVal prevMach H
              = Inr ((InvalidExecutionChildType, None),
                     snd (alloc (store H prevMach (Mach m')) (Assertion a))))
       \<and> (stepsRun = NumSteps params' \<and> Stub env a = AssertionStub claim' \<longrightarrow>
            getNodeOpinion env params' claim' prevPendingCount claimHeight (Some ms) messagesVal prevMach H
              = Inr ((ValidChildType, Some (nextRef H)),
                     snd (alloc (store H prevMach (Mach m')) (Assertion a)))
            \<and> getAssertion (snd (alloc (store H prevMach (Mach m')) (Assertion a))) (nextRef H) = Inr a
            \<and> Stub env a = AssertionStub claim')"
proof -
  note ex = executeAssertionAt_Inr [OF assms(3) assms(4)]
  have ga: "getAssertion (snd (alloc (store H prevMach (Mach m')) (Assertion a))) (nextRef H) = Inr a"
    by (simp add: alloc_def store_def getAssertion_def)
  show ?thesis
    using assms(1,2) ga
    by (auto simp: getNodeOpinion_def ex bindE_def)
qed

text \<open>
  Scenario C (120 steps claimed, the machine halts after 100) and scenario D of the
  spec.
\<close>

lemma demo_exec120:
  "ExecuteAssertion demo_env 0 (NumSteps (demo_params\<lparr>NumSteps := 120\<rparr>))
     (TimeBounds (demo_params\<lparr>NumSteps := 120\<rparr>)) () = (100, 100, 100)"
  by (simp add: demo_exec)

lemma demo_exec1:
  "ExecuteAssertion demo_env 0 (NumSteps demo_params) (TimeBounds demo_params) () = (1, 1, 1)"
  by (simp add: demo_exec demo_params_def)

lemma demo_height: "Some 7 = Some (5 + ImportedMessageCount demo_params)"
  by (simp add: demo_params_def)

lemma demo_height120: "Some 7 = Some (5 + ImportedMessageCount (demo_params\<lparr>NumSteps := 120\<rparr>))"
  by (simp add: demo_params_def)

lemma demo_top: "MessageStack.GetTopHash demo_stack = ImportedMessagesSlice demo_claim"
  by (simp add: demo_stack_def demo_claim_def)

theorem getNodeOpinion_execution_check_witness:
  "getNodeOpinion demo_env (demo_params\<lparr>NumSteps := 120\<rparr>) demo_claim 5 (Some 7)
     (Some demo_stack) () 0 demo_heap
   = Inr ((InvalidExecutionChildType, None),
          snd (alloc (store demo_heap 0 (Mach 100)) (Assertion 100)))
   \<and> getNodeOpinion demo_env demo_params demo_claim 5 (Some 7) (Some demo_stack) () 0 demo_heap
   = Inr ((ValidChildType, Some (nextRef demo_heap)),
          snd (alloc (store demo_heap 0 (Mach 1)) (Assertion 1)))"
  using getNodeOpinion_execution_check [OF demo_height120 demo_top demo_getMach demo_exec120]
        getNodeOpinion_execution_check [OF demo_height demo_top demo_getMach demo_exec1]
  by (simp add: demo_stub demo_claim_def demo_params_def)


text \<open>
  C9, as amended: the child type and the assertion that \<^verbatim>\<open>getNodeOpinion\<close> returns are
  determined by the values of its seven inputs at the time of the call, the state of the
  machine behind \<^verbatim>\<open>prevMach\<close> among them: two calls on heaps that agree on that machine
  return the same child type and an equal assertion. Every other object that exists is
  left as it was.
\<close>

theorem getNodeOpinion_input_values:
  "(getMach H1 mach1 = getMach H2 mach2 \<longrightarrow>
      opinionOf (getNodeOpinion env params' claim' prevPendingCount claimHeight messageStack messagesVal mach1 H1)
      = opinionOf (getNodeOpinion env params' claim' prevPendingCount claimHeight messageStack messagesVal mach2 H2))
   \<and> (\<forall>res H' r. getNodeOpinion env params' claim' prevPendingCount claimHeight messageStack messagesVal mach1 H1
          = Inr (res, H') \<and> r \<noteq> mach1 \<and> r < nextRef H1 \<longrightarrow> objs H' r = objs H1 r)"
proof (intro conjI impI allI)
  assume eq: "getMach H1 mach1 = getMach H2 mach2"
  show "opinionOf (getNodeOpinion env params' claim' prevPendingCount claimHeight messageStack messagesVal mach1 H1)
      = opinionOf (getNodeOpinion env params' claim' prevPendingCount claimHeight messageStack messagesVal mach2 H2)"
  proof (cases "getMach H1 mach1")
    case (Inl e)
    then show ?thesis using eq
      by (auto simp: getNodeOpinion_def opinionOf_def bindE_def executeAssertionAt_Inl
          split: option.splits)
  next
    case (Inr m)
    obtain a stepsRun m' where f: "ExecuteAssertion env m (NumSteps params') (TimeBounds params') messagesVal = (a, stepsRun, m')"
      by (cases "ExecuteAssertion env m (NumSteps params') (TimeBounds params') messagesVal") auto
    from Inr eq have Inr2: "getMach H2 mach2 = Inr m" by simp
    show ?thesis
      by (auto simp: getNodeOpinion_def opinionOf_def bindE_def
            executeAssertionAt_Inr [OF Inr f] executeAssertionAt_Inr [OF Inr2 f]
            alloc_def store_def getAssertion_def
          split: option.splits)
  qed
next
  fix res H' r
  assume "getNodeOpinion env params' claim' prevPendingCount claimHeight messageStack messagesVal mach1 H1
          = Inr (res, H') \<and> r \<noteq> mach1 \<and> r < nextRef H1"
  then show "objs H' r = objs H1 r"
    by (auto simp: getNodeOpinion_def bindE_def executeAssertionAt_def alloc_def store_def Let_def
        split: option.splits sum.splits prod.splits if_splits)
qed


text \<open>
  The function is not free of effects: it advances the machine passed in. A first call
  leaves machine 0 one step further, and a second call with the same arguments returns
  another child type.
\<close>

lemma demo_first_call:
  "getNodeOpinion demo_env demo_params demo_claim 5 (Some 7) (Some demo_stack) () 0 demo_heap
   = Inr ((ValidChildType, Some 1), demo_heap_after)"
  by (simp add: getNodeOpinion_def executeAssertionAt_def bindE_def demo_exec demo_stub
      demo_params_def demo_claim_def demo_stack_def demo_heap_def demo_heap_after_def
      getMach_def getAssertion_def alloc_def store_def)

lemma demo_second_call:
  "map_sum id fst
     (getNodeOpinion demo_env demo_params demo_claim 5 (Some 7) (Some demo_stack) () 0 demo_heap_after)
   = Inr (InvalidExecutionChildType, None)"
  by (simp add: getNodeOpinion_def executeAssertionAt_def bindE_def demo_exec demo_stub
      demo_params_def demo_claim_def demo_stack_def demo_heap_after_def
      getMach_def getAssertion_def alloc_def store_def)

theorem getNodeOpinion_advances_machine:
  "getNodeOpinion demo_env demo_params demo_claim 5 (Some 7) (Some demo_stack) () 0 demo_heap
     = Inr ((ValidChildType, Some 1), demo_heap_after)
   \<and> map_sum id fst
       (getNodeOpinion demo_env demo_params demo_claim 5 (Some 7) (Some demo_stack) () 0 demo_heap_after)
     = Inr (InvalidExecutionChildType, None)
   \<and> getMach demo_heap 0 = Inr 0 \<and> getMach demo_heap_after 0 = Inr 1"
  by (simp add: demo_first_call demo_second_call demo_getMach)
     (simp add: demo_heap_after_def getMach_def)

lemma demo_getMach2: "getMach demo_heap 0 = getMach demo_heap2 3"
  by (simp add: demo_heap_def demo_heap2_def getMach_def)

theorem getNodeOpinion_input_values_witness:
  "opinionOf (getNodeOpinion demo_env demo_params demo_claim 5 (Some 7) (Some demo_stack) () 3 demo_heap2)
   = Inr (ValidChildType, Some 1)"
proof -
  have "opinionOf (getNodeOpinion demo_env demo_params demo_claim 5 (Some 7) (Some demo_stack) () 0 demo_heap)
      = opinionOf (getNodeOpinion demo_env demo_params demo_claim 5 (Some 7) (Some demo_stack) () 3 demo_heap2)"
    using getNodeOpinion_input_values [of demo_heap 0 demo_heap2 3 demo_env demo_params demo_claim 5 "Some 7"
        "Some demo_stack" "()"] demo_getMach2
    by blast
  then show ?thesis
    by (simp add: demo_first_call opinionOf_def bindE_def demo_heap_after_def getAssertion_def)
qed

section \<open>Theorems about preparedAssertion.Clone\<close>

lemma getBigInt_iff: "getBigInt H r = Inr i \<longleftrightarrow> objs H r = Some (BigInt i)"
  by (auto simp: getBigInt_def split: option.splits obj.splits)
lemma getProtoData_iff: "getProtoData H r = Inr d \<longleftrightarrow> objs H r = Some (ProtoData d)"
  by (auto simp: getProtoData_def split: option.splits obj.splits)
lemma getParams_iff: "getParams H r = Inr p \<longleftrightarrow> objs H r = Some (Params p)"
  by (auto simp: getParams_def split: option.splits obj.splits)
lemma getClaim_iff: "getClaim H r = Inr c \<longleftrightarrow> objs H r = Some (Claim c)"
  by (auto simp: getClaim_def split: option.splits obj.splits)
lemma getAssertion_iff: "getAssertion H r = Inr a \<longleftrightarrow> objs H r = Some (Assertion a)"
  by (auto simp: getAssertion_def split: option.splits obj.splits)
lemma getMach_iff: "getMach H r = Inr m \<longleftrightarrow> objs H r = Some (Mach m)"
  by (auto simp: getMach_def split: option.splits obj.splits)
lemma getPrepared_iff: "getPrepared H r = Inr p \<longleftrightarrow> objs H r = Some (Prepared p)"
  by (auto simp: getPrepared_def split: option.splits obj.splits)

lemma bindE_Inr_iff: "bindE r f = Inr y \<longleftrightarrow> (\<exists>x. r = Inr x \<and> f x = Inr y)"
  by (cases r) (auto simp: bindE_def)

lemma Clone_Inr:
  assumes "Clone H pa = Inr (c, H')"
  shows "\<exists>p d bs ps cl.
      objs H pa = Some (Prepared p) \<and> objs H (prevDeadline p) = Some (BigInt d)
    \<and> objs H (beforeState p) = Some (ProtoData bs) \<and> objs H (params p) = Some (Params ps)
    \<and> objs H (claim p) = Some (Claim cl)
    \<and> c = nextRef H + 4
    \<and> nextRef H' = nextRef H + 5
    \<and> objs H' = (objs H)
         (nextRef H \<mapsto> BigInt d, nextRef H + 1 \<mapsto> ProtoData bs, nextRef H + 2 \<mapsto> Params ps,
          nextRef H + 3 \<mapsto> Claim cl,
          nextRef H + 4 \<mapsto> Prepared
            \<lparr>leafHash = leafHash p, prevPrevLeafHash = prevPrevLeafHash p,
             prevDataHash = prevDataHash p, prevDeadline = nextRef H,
             prevChildType = prevChildType p, beforeState = nextRef H + 1,
             params = nextRef H + 2, claim = nextRef H + 3,
             assertion = preparedAssertion.assertion p,
             machine = preparedAssertion.machine p\<rparr>)"
  using assms
  apply (simp add: Clone_def bindE_Inr_iff getPrepared_iff getBigInt_iff VMProtoData_Clone_def
      AssertionParams_Clone_def AssertionClaim_Clone_def getProtoData_iff getParams_iff getClaim_iff
      alloc_def split: prod.splits)
  apply (elim exE conjE)
  apply (auto simp: getProtoData_iff getParams_iff getClaim_iff eval_nat_numeral split: if_splits)
  done


lemma demo_Clone: "Clone demo_pa_heap 6 = Inr (11, demo_clone_heap)"
  by (simp add: Clone_def bindE_def getPrepared_def getBigInt_def VMProtoData_Clone_def
      AssertionParams_Clone_def AssertionClaim_Clone_def getProtoData_def getParams_def getClaim_def
      alloc_def demo_pa_heap_def demo_clone_heap_def demo_pa_def demo_pa_clone_def)

lemma demo_pa_heap_ok: "heap_ok demo_pa_heap"
  by (simp add: heap_ok_def demo_pa_heap_def)

text \<open>
  C5, as amended: in a heap whose objects all lie below \<open>nextRef\<close>, a clone is a new
  struct with the same hashes and child type, and with a deadline, state before,
  parameters and claim that are new objects with the content of the original's; writing
  any of these five objects of the clone leaves the five of the original as they were,
  and the other way round. The fields \<^verbatim>\<open>assertion\<close> and \<^verbatim>\<open>machine\<close> of the clone are
  the references of the original: these two objects are shared.
\<close>

theorem Clone_independent:
  assumes "heap_ok H" and "Clone H pa = Inr (c, H')"
  shows "\<exists>p pc. getPrepared H pa = Inr p \<and> getPrepared H' c = Inr pc
     \<and> leafHash pc = leafHash p \<and> prevPrevLeafHash pc = prevPrevLeafHash p
     \<and> prevDataHash pc = prevDataHash p \<and> prevChildType pc = prevChildType p
     \<and> getBigInt H' (prevDeadline pc) = getBigInt H (prevDeadline p)
     \<and> getProtoData H' (beforeState pc) = getProtoData H (beforeState p)
     \<and> getParams H' (params pc) = getParams H (params p)
     \<and> getClaim H' (claim pc) = getClaim H (claim p)
     \<and> preparedAssertion.assertion pc = preparedAssertion.assertion p
     \<and> preparedAssertion.machine pc = preparedAssertion.machine p
     \<and> distinct [c, prevDeadline pc, beforeState pc, params pc, claim pc]
     \<and> ownRefs pc c \<inter> ownRefs p pa = {}
     \<and> (\<forall>r \<in> ownRefs pc c. \<forall>q \<in> ownRefs p pa. \<forall>x.
           objs (store H' r x) q = objs H q \<and> objs (store H' q x) r = objs H' r)"
proof -
  from Clone_Inr [OF assms(2)] obtain p d bs ps cl where
    pa: "objs H pa = Some (Prepared p)" and dl: "objs H (prevDeadline p) = Some (BigInt d)"
    and b: "objs H (beforeState p) = Some (ProtoData bs)" and ps: "objs H (params p) = Some (Params ps)"
    and cl: "objs H (claim p) = Some (Claim cl)" and c: "c = nextRef H + 4"
    and n: "nextRef H' = nextRef H + 5"
    and o: "objs H' = (objs H)
         (nextRef H \<mapsto> BigInt d, nextRef H + 1 \<mapsto> ProtoData bs, nextRef H + 2 \<mapsto> Params ps,
          nextRef H + 3 \<mapsto> Claim cl,
          nextRef H + 4 \<mapsto> Prepared
            \<lparr>leafHash = leafHash p, prevPrevLeafHash = prevPrevLeafHash p,
             prevDataHash = prevDataHash p, prevDeadline = nextRef H,
             prevChildType = prevChildType p, beforeState = nextRef H + 1,
             params = nextRef H + 2, claim = nextRef H + 3,
             assertion = preparedAssertion.assertion p,
             machine = preparedAssertion.machine p\<rparr>)"
    by blast
  from assms(1) pa dl b ps cl have lt:
    "pa < nextRef H" "prevDeadline p < nextRef H" "beforeState p < nextRef H"
    "params p < nextRef H" "claim p < nextRef H"
    by (auto simp: heap_ok_def)
  define pc where "pc = \<lparr>leafHash = leafHash p, prevPrevLeafHash = prevPrevLeafHash p,
             prevDataHash = prevDataHash p, prevDeadline = nextRef H,
             prevChildType = prevChildType p, beforeState = nextRef H + 1,
             params = nextRef H + 2, claim = nextRef H + 3,
             assertion = preparedAssertion.assertion p,
             machine = preparedAssertion.machine p\<rparr>"
  have own: "ownRefs pc c = {nextRef H + 4, nextRef H, nextRef H + 1, nextRef H + 2, nextRef H + 3}"
    by (simp add: ownRefs_def pc_def c)
  have ownp: "\<And>q. q \<in> ownRefs p pa \<Longrightarrow> q < nextRef H"
    using lt by (auto simp: ownRefs_def)
  have low: "\<And>q. q < nextRef H \<Longrightarrow> objs H' q = objs H q"
    by (simp add: o)
  have "getPrepared H pa = Inr p" by (simp add: getPrepared_iff pa)
  moreover have "getPrepared H' c = Inr pc" by (simp add: getPrepared_iff o c pc_def)
  moreover have "getBigInt H' (prevDeadline pc) = getBigInt H (prevDeadline p)"
    by (simp add: getBigInt_def o pc_def dl)
  moreover have "getProtoData H' (beforeState pc) = getProtoData H (beforeState p)"
    by (simp add: getProtoData_def o pc_def b)
  moreover have "getParams H' (params pc) = getParams H (params p)"
    by (simp add: getParams_def o pc_def ps)
  moreover have "getClaim H' (claim pc) = getClaim H (claim p)"
    by (simp add: getClaim_def o pc_def cl)
  moreover have "distinct [c, prevDeadline pc, beforeState pc, params pc, claim pc]"
    by (simp add: c pc_def)
  moreover have "ownRefs pc c \<inter> ownRefs p pa = {}"
    using ownp by (fastforce simp: own)
  moreover have "\<forall>r \<in> ownRefs pc c. \<forall>q \<in> ownRefs p pa. \<forall>x.
           objs (store H' r x) q = objs H q \<and> objs (store H' q x) r = objs H' r"
  proof (intro ballI allI)
    fix r q x
    assume r: "r \<in> ownRefs pc c" and q: "q \<in> ownRefs p pa"
    from q have ql: "q < nextRef H" by (rule ownp)
    from r have rl: "nextRef H \<le> r" by (auto simp: own)
    from ql rl have ne: "r \<noteq> q" by simp
    show "objs (store H' r x) q = objs H q \<and> objs (store H' q x) r = objs H' r"
      using ne low [OF ql] by (simp add: store_def)
  qed
  ultimately show ?thesis
    by (intro exI [of _ p] exI [of _ pc]) (simp add: pc_def)
qed


lemma demo_clone_own: "ownRefs demo_pa_clone 11 = {11, 7, 8, 9, 10}"
  by (simp add: ownRefs_def demo_pa_clone_def)

lemma demo_pa_own: "ownRefs demo_pa 6 = {6, 1, 2, 3, 4}"
  by (simp add: ownRefs_def demo_pa_def)

lemma demo_getPrepared: "getPrepared demo_pa_heap 6 = Inr demo_pa"
  by (simp add: getPrepared_def demo_pa_heap_def)

lemma demo_getPrepared_clone: "getPrepared demo_clone_heap 11 = Inr demo_pa_clone"
  by (simp add: getPrepared_def demo_clone_heap_def)

theorem Clone_independent_witness:
  "objs (store demo_clone_heap 9 (Params (demo_params\<lparr>NumSteps := 77\<rparr>))) 3 = objs demo_pa_heap 3
   \<and> objs (store demo_clone_heap 3 (Params (demo_params\<lparr>NumSteps := 77\<rparr>))) 9 = objs demo_clone_heap 9"
proof -
  from Clone_independent [OF demo_pa_heap_ok demo_Clone] obtain p pc where
    p: "getPrepared demo_pa_heap 6 = Inr p" and pc: "getPrepared demo_clone_heap 11 = Inr pc"
    and ind: "\<forall>r \<in> ownRefs pc 11. \<forall>q \<in> ownRefs p 6. \<forall>x.
           objs (store demo_clone_heap r x) q = objs demo_pa_heap q
         \<and> objs (store demo_clone_heap q x) r = objs demo_clone_heap r"
    by blast
  from p have "p = demo_pa" by (simp add: demo_getPrepared)
  moreover from pc have "pc = demo_pa_clone" by (simp add: demo_getPrepared_clone)
  ultimately show ?thesis
    using ind by (simp add: demo_clone_own demo_pa_own)
qed

text \<open>
  The clone is not independent in its machine and its assertion: writing the machine
  (or the assertion) reached through the clone changes what the original reads.
\<close>

theorem Clone_shares_machine_and_assertion:
  "Clone demo_pa_heap 6 = Inr (11, demo_clone_heap)
   \<and> getPrepared demo_clone_heap 6 = Inr demo_pa
   \<and> getPrepared demo_clone_heap 11 = Inr demo_pa_clone
   \<and> preparedAssertion.machine demo_pa_clone = preparedAssertion.machine demo_pa
   \<and> preparedAssertion.assertion demo_pa_clone = preparedAssertion.assertion demo_pa
   \<and> getMach demo_clone_heap (preparedAssertion.machine demo_pa) = Inr 1
   \<and> getMach (store demo_clone_heap (preparedAssertion.machine demo_pa_clone) (Mach 2))
       (preparedAssertion.machine demo_pa) = Inr 2
   \<and> getAssertion demo_clone_heap (preparedAssertion.assertion demo_pa) = Inr 1
   \<and> getAssertion (store demo_clone_heap (preparedAssertion.assertion demo_pa_clone) (Assertion 99))
       (preparedAssertion.assertion demo_pa) = Inr 99"
  by (simp add: demo_Clone demo_getPrepared_clone)
     (simp add: demo_clone_heap_def demo_pa_heap_def demo_pa_def demo_pa_clone_def
       getPrepared_def getMach_def getAssertion_def store_def)

section \<open>Theorems about updateCurrent\<close>

subsection \<open>Runs on the sample graph, and what a run leaves untouched\<close>

lemma demo_getNode0_missing:
  "getNode (nodeGraph (chain (demo_thread demo_graph_missing)))
     (Some (knownValidNode (chain (demo_thread demo_graph_missing)))) = Inr demo_node0"
  by (simp add: demo_thread_def demo_chain_def demo_graph_missing_def getNode_def)

lemma demo_getNode0:
  "getNode (nodeGraph (chain (demo_thread demo_graph)))
     (Some (knownValidNode (chain (demo_thread demo_graph)))) = Inr demo_node0"
  by (simp add: demo_thread_def demo_chain_def demo_graph_def getNode_def)

lemma demo_successorOf_missing:
  "successorOf (nodeGraph (chain (demo_thread demo_graph_missing))) demo_node0 = Some 1"
  by (simp add: successorOf_def demo_thread_def demo_chain_def demo_graph_missing_def demo_node0_def
      zeroBytes32_def)

lemma demo_successorOf:
  "successorOf (nodeGraph (chain (demo_thread demo_graph))) demo_node0 = Some 1"
  by (simp add: successorOf_def demo_thread_def demo_chain_def demo_graph_def demo_node0_def
      zeroBytes32_def)

lemma demo_clone_call:
  "getNodeOpinion demo_env demo_params demo_claim 5 (Some 7) (Some demo_stack) () 1
     \<lparr>objs = [0 \<mapsto> Mach 0, 1 \<mapsto> Mach 0], nextRef = 2\<rparr>
   = Inr ((ValidChildType, Some 2), demo_mem1)"
  by (simp add: getNodeOpinion_def executeAssertionAt_def bindE_def demo_exec demo_stub
      demo_params_def demo_claim_def demo_stack_def demo_mem1_def
      getMach_def getAssertion_def alloc_def store_def)

lemma demo_Machine_Clone:
  "Machine_Clone demo_heap 0 = Inr (1, \<lparr>objs = [0 \<mapsto> Mach 0, 1 \<mapsto> Mach 0], nextRef = 2\<rparr>)"
  by (simp add: Machine_Clone_def bindE_def getMach_def demo_heap_def alloc_def)

lemma demo_AfterPendingTop: "AfterPendingTop demo_claim = 5"
  by (simp add: demo_claim_def)

lemma demo_opinionByExecution_missing:
  "opinionByExecution demo_env (demo_thread demo_graph_missing) demo_node0 (Some 1)
   = Inr (ValidChildType, 1, Some 2, demo_mem1)"
  by (simp add: opinionByExecution_def demo_thread_def demo_chain_def demo_graph_missing_def
      getNode_def demo_succ_def demo_node0_def demo_inbox_def bindE_def
      demo_Machine_Clone demo_clone_call demo_AfterPendingTop del: One_nat_def)


lemma demo_opinionByExecution:
  "opinionByExecution demo_env (demo_thread demo_graph) demo_node0 (Some 1)
   = Inr (ValidChildType, 1, Some 2, demo_mem1)"
  by (simp add: opinionByExecution_def demo_thread_def demo_chain_def demo_graph_def
      getNode_def demo_succ_def demo_node0_def demo_inbox_def bindE_def
      demo_Machine_Clone demo_clone_call demo_AfterPendingTop del: One_nat_def)

lemma demo_prepared_empty: "preparedAssertions (demo_thread g) h = None"
  by (simp add: demo_thread_def)

lemma demo_chooseOpinion_missing:
  "chooseOpinion demo_env (demo_thread demo_graph_missing) demo_node0
     (successorOf (nodeGraph (chain (demo_thread demo_graph_missing))) demo_node0)
   = Inr (ValidChildType, 1, Some 2, demo_mem1)"
  by (simp add: chooseOpinion_def demo_successorOf_missing demo_opinionByExecution_missing
      demo_prepared_empty del: One_nat_def)

lemma demo_chooseOpinion:
  "chooseOpinion demo_env (demo_thread demo_graph) demo_node0
     (successorOf (nodeGraph (chain (demo_thread demo_graph))) demo_node0)
   = Inr (ValidChildType, 1, Some 2, demo_mem1)"
  by (simp add: chooseOpinion_def demo_successorOf demo_opinionByExecution demo_prepared_empty
      del: One_nat_def)

lemma demo_index: "childTypeIndex demo_env ValidChildType = 3"
  by (simp add: demo_env_def)

lemma demo_index_lt: "childTypeIndex demo_env ValidChildType < length (successorHashes demo_node0)"
  by (simp add: demo_env_def demo_node0_def)

lemma demo_lookup_missing:
  "nodeFromHash (nodeGraph (chain (demo_thread demo_graph_missing)))
     (successorHashes demo_node0 ! childTypeIndex demo_env ValidChildType) = None"
  by (simp add: demo_index demo_node0_def demo_thread_def demo_chain_def demo_graph_missing_def)

lemma demo_lookup:
  "nodeFromHash (nodeGraph (chain (demo_thread demo_graph)))
     (successorHashes demo_node0 ! childTypeIndex demo_env ValidChildType) = Some 2"
  by (simp add: demo_index demo_node0_def demo_thread_def demo_chain_def demo_graph_def)

lemma getNodeOpinion_frame:
  "getNodeOpinion env params' claim' prevPendingCount claimHeight messageStack messagesVal mach H
     = Inr (res, H') \<Longrightarrow> r \<noteq> mach \<Longrightarrow> r < nextRef H \<Longrightarrow> objs H' r = objs H r"
  by (auto simp: getNodeOpinion_def bindE_def executeAssertionAt_def alloc_def store_def Let_def
      split: option.splits sum.splits prod.splits if_splits)

lemma Machine_Clone_Inr:
  "Machine_Clone H m = Inr (c, H') \<Longrightarrow>
     c = nextRef H \<and> nextRef H' = Suc (nextRef H) \<and> (\<forall>r. r < nextRef H \<longrightarrow> objs H' r = objs H r)"
  by (auto simp: Machine_Clone_def bindE_Inr_iff alloc_def)

lemma opinionByExecution_Inr:
  assumes "opinionByExecution env T cur successor = Inr (newOpinion, nextMachine, validExecution, H)"
  shows "\<exists>m H1 succ d.
      getNode (nodeGraph (chain T)) successor = Inr succ \<and> disputable succ = Some d \<and>
      Node.machine cur = Some m \<and>
      Machine_Clone (mem T) m = Inr (nextMachine, H1) \<and>
      getNodeOpinion env (AssertionParams d) (AssertionClaim d) (PendingCount (vmProtoData cur))
        (GetHeight (pendingInbox (chain T)) (AfterPendingTop (AssertionClaim d)))
        (Substack (pendingInbox (chain T)) (PendingTop (vmProtoData cur)) (AfterPendingTop (AssertionClaim d)))
        (ValueForSubseq (pendingInbox (chain T)) (PendingTop (vmProtoData cur)) (AfterPendingTop (AssertionClaim d)))
        nextMachine H1 = Inr ((newOpinion, validExecution), H)"
proof -
  from assms obtain succ where s: "getNode (nodeGraph (chain T)) successor = Inr succ"
    by (cases "getNode (nodeGraph (chain T)) successor") (auto simp: opinionByExecution_def bindE_def)
  from assms s obtain d where d: "disputable succ = Some d"
    by (cases "disputable succ") (auto simp: opinionByExecution_def bindE_def)
  from assms s d obtain m where m: "Node.machine cur = Some m"
    by (cases "Node.machine cur") (auto simp: opinionByExecution_def bindE_def Let_def)
  from assms s d m obtain H1 nm where mc: "Machine_Clone (mem T) m = Inr (nm, H1)"
    by (cases "Machine_Clone (mem T) m") (auto simp: opinionByExecution_def bindE_def Let_def)
  from assms s d m mc have nm: "nm = nextMachine"
    and go: "getNodeOpinion env (AssertionParams d) (AssertionClaim d) (PendingCount (vmProtoData cur))
        (GetHeight (pendingInbox (chain T)) (AfterPendingTop (AssertionClaim d)))
        (Substack (pendingInbox (chain T)) (PendingTop (vmProtoData cur)) (AfterPendingTop (AssertionClaim d)))
        (ValueForSubseq (pendingInbox (chain T)) (PendingTop (vmProtoData cur)) (AfterPendingTop (AssertionClaim d)))
        nextMachine H1 = Inr ((newOpinion, validExecution), H)"
    by (auto simp: opinionByExecution_def bindE_def Let_def split: sum.splits)
  from s d m mc nm go show ?thesis by blast
qed

lemma opinionByExecution_frame:
  assumes "opinionByExecution env T cur successor = Inr (newOpinion, nextMachine, validExecution, H)"
    and "r < nextRef (mem T)"
  shows "objs H r = objs (mem T) r"
proof -
  from opinionByExecution_Inr [OF assms(1)] obtain m H1 succ d where
    "getNode (nodeGraph (chain T)) successor = Inr succ" and "disputable succ = Some d" and
    mc: "Machine_Clone (mem T) m = Inr (nextMachine, H1)"
    and go: "getNodeOpinion env (AssertionParams d) (AssertionClaim d) (PendingCount (vmProtoData cur))
        (GetHeight (pendingInbox (chain T)) (AfterPendingTop (AssertionClaim d)))
        (Substack (pendingInbox (chain T)) (PendingTop (vmProtoData cur)) (AfterPendingTop (AssertionClaim d)))
        (ValueForSubseq (pendingInbox (chain T)) (PendingTop (vmProtoData cur)) (AfterPendingTop (AssertionClaim d)))
        nextMachine H1 = Inr ((newOpinion, validExecution), H)"
    by blast
  from Machine_Clone_Inr [OF mc] have nm: "nextMachine = nextRef (mem T)"
    and n1: "nextRef H1 = Suc (nextRef (mem T))"
    and f1: "objs H1 r = objs (mem T) r"
    using assms(2) by auto
  from getNodeOpinion_frame [OF go, of r] nm n1 assms(2) have "objs H r = objs H1 r" by simp
  with f1 show ?thesis by simp
qed

lemma chooseOpinion_frame:
  assumes "chooseOpinion env T cur successor = Inr (newOpinion, nextMachine, validExecution, H)"
    and "r < nextRef (mem T)"
  shows "objs H r = objs (mem T) r"
proof (cases "preparedAssertions T (hash cur)")
  case None
  with assms show ?thesis by (simp add: chooseOpinion_def opinionByExecution_frame)
next
  case (Some p)
  with assms(1) obtain prepped same where
    "getPrepared (mem T) p = Inr prepped"
    "preppedMatches (mem T) (nodeGraph (chain T)) prepped successor = Inr same"
    and r: "(if same then Inr (ValidChildType, preparedAssertion.machine prepped,
                      Some (preparedAssertion.assertion prepped), mem T)
            else opinionByExecution env T cur successor)
          = Inr (newOpinion, nextMachine, validExecution, H)"
    by (auto simp: chooseOpinion_def bindE_Inr_iff)
  show ?thesis
  proof (cases same)
    case True
    with r show ?thesis by simp
  next
    case False
    with r assms(2) show ?thesis by (simp add: opinionByExecution_frame)
  qed
qed

lemma updateCurrent_not_found:
  assumes "getNode (nodeGraph (chain T)) (Some (knownValidNode (chain T))) = Inr cur"
    and "chooseOpinion env T cur (successorOf (nodeGraph (chain T)) cur)
           = Inr (newOpinion, nextMachine, validExecution, H)"
    and "childTypeIndex env newOpinion < length (successorHashes cur)"
    and "nodeFromHash (nodeGraph (chain T)) (successorHashes cur ! childTypeIndex env newOpinion) = None"
  shows "updateCurrent env T
           = Inr (T\<lparr>mem := H, preparingAssertions := Map.empty, preparedAssertions := Map.empty\<rparr>, [])"
  using assms by (simp add: updateCurrent_def bindE_def Let_def)

text \<open>
  C10: when the graph has no node for the successor hash of the chosen child type,
  \<^verbatim>\<open>updateCurrent\<close> returns with the observer as it was (the same known valid node, the
  same graph and so the same \<^verbatim>\<open>machine\<close> and \<^verbatim>\<open>assertion\<close> of every node), calls no
  listener, and leaves both maps empty. Every object that existed before is as it was:
  the execution ran on a fresh clone of the machine.
\<close>

theorem updateCurrent_lookup_fails_unchanged:
  assumes "getNode (nodeGraph (chain T)) (Some (knownValidNode (chain T))) = Inr cur"
    and "chooseOpinion env T cur (successorOf (nodeGraph (chain T)) cur)
           = Inr (newOpinion, nextMachine, validExecution, H)"
    and "childTypeIndex env newOpinion < length (successorHashes cur)"
    and "nodeFromHash (nodeGraph (chain T)) (successorHashes cur ! childTypeIndex env newOpinion) = None"
  shows "updateCurrent env T
           = Inr (\<lparr>chain = chain T, mem = H, preparingAssertions = Map.empty,
                   preparedAssertions = Map.empty\<rparr>, [])
       \<and> (\<forall>r. r < nextRef (mem T) \<longrightarrow> objs H r = objs (mem T) r)"
  using updateCurrent_not_found [OF assms] chooseOpinion_frame [OF assms(2)]
  by simp

text \<open>The sample graph without a node for hash 34.\<close>

theorem updateCurrent_lookup_fails_unchanged_witness:
  "updateCurrent demo_env (demo_thread demo_graph_missing)
     = Inr (\<lparr>chain = demo_chain demo_graph_missing, mem = demo_mem1,
             preparingAssertions = Map.empty, preparedAssertions = Map.empty\<rparr>, [])
   \<and> objs demo_mem1 0 = objs demo_heap 0"
  using updateCurrent_lookup_fails_unchanged
    [OF demo_getNode0_missing demo_chooseOpinion_missing demo_index_lt demo_lookup_missing]
  by (simp add: demo_thread_def demo_heap_def)

subsection \<open>A successor hash with no node\<close>

text \<open>
  One more round of the catch-up loop: when the known valid node is not a leaf and
  \<^verbatim>\<open>updateCurrent\<close> returns without a call to a listener, the loop goes on from the
  state returned.
\<close>

lemma catchUp_retry:
  assumes "\<not> IsLeaf (nodeGraph (chain T)) (knownValidNode (chain T))"
    and "updateCurrent env T = Inr (T1, [])"
  shows "catchUp (Suc n) env T = catchUp n env T1"
  using assms by (simp split: option.splits sum.splits prod.splits)

lemma demo_not_leaf:
  "\<not> IsLeaf (nodeGraph (chain (demo_thread demo_graph_missing)))
       (knownValidNode (chain (demo_thread demo_graph_missing)))"
  by (simp add: IsLeaf_def demo_thread_def demo_chain_def demo_graph_missing_def)

text \<open>
  C7, as amended: when the graph has no node for the successor hash of the chosen child
  type, \<^verbatim>\<open>updateCurrent\<close> returns normally (the lookup is guarded by \<^verbatim>\<open>if ok\<close>): no
  error is raised, the known valid node stays where it is, and the catch-up loop, whose
  condition still holds, calls \<^verbatim>\<open>updateCurrent\<close> again on the state returned.
\<close>

theorem updateCurrent_lookup_fails_retried:
  assumes "getNode (nodeGraph (chain T)) (Some (knownValidNode (chain T))) = Inr cur"
    and "chooseOpinion env T cur (successorOf (nodeGraph (chain T)) cur)
           = Inr (newOpinion, nextMachine, validExecution, H)"
    and "childTypeIndex env newOpinion < length (successorHashes cur)"
    and "nodeFromHash (nodeGraph (chain T)) (successorHashes cur ! childTypeIndex env newOpinion) = None"
    and "\<not> IsLeaf (nodeGraph (chain T)) (knownValidNode (chain T))"
  shows "updateCurrent env T
           = Inr (\<lparr>chain = chain T, mem = H, preparingAssertions = Map.empty,
                   preparedAssertions = Map.empty\<rparr>, [])
       \<and> catchUp (Suc n) env T
           = catchUp n env \<lparr>chain = chain T, mem = H, preparingAssertions = Map.empty,
                             preparedAssertions = Map.empty\<rparr>"
proof -
  have u: "updateCurrent env T
           = Inr (\<lparr>chain = chain T, mem = H, preparingAssertions = Map.empty,
                   preparedAssertions = Map.empty\<rparr>, [])"
    using updateCurrent_not_found [OF assms(1-4)] by simp
  from catchUp_retry [OF assms(5) u] u show ?thesis by simp
qed

theorem updateCurrent_lookup_fails_retried_witness:
  "updateCurrent demo_env (demo_thread demo_graph_missing) = Inr (demo_retry demo_mem1, [])
   \<and> catchUp (Suc 1) demo_env (demo_thread demo_graph_missing)
       = catchUp 1 demo_env (demo_retry demo_mem1)"
  using updateCurrent_lookup_fails_retried
    [OF demo_getNode0_missing demo_chooseOpinion_missing demo_index_lt demo_lookup_missing
        demo_not_leaf, of 1]
  by (simp add: demo_retry_def demo_thread_def del: One_nat_def catchUp.simps)

text \<open>
  On the sample graph without a node for hash 34 nothing is fatal: two runs of
  \<^verbatim>\<open>updateCurrent\<close> in a row return normally with the pointer on node 0, and the
  catch-up loop is still running after two rounds.
\<close>

lemma demo_retry_getNode0:
  "getNode (nodeGraph (chain (demo_retry H))) (Some (knownValidNode (chain (demo_retry H))))
   = Inr demo_node0"
  by (simp add: demo_retry_def demo_chain_def demo_graph_missing_def getNode_def)

lemma demo_retry_successorOf:
  "successorOf (nodeGraph (chain (demo_retry H))) demo_node0 = Some 1"
  by (simp add: successorOf_def demo_retry_def demo_chain_def demo_graph_missing_def demo_node0_def
      zeroBytes32_def)

lemma demo_Machine_Clone1:
  "Machine_Clone demo_mem1 0
   = Inr (3, \<lparr>objs = [0 \<mapsto> Mach 0, 1 \<mapsto> Mach 1, 2 \<mapsto> Assertion 1, 3 \<mapsto> Mach 0], nextRef = 4\<rparr>)"
  by (simp add: Machine_Clone_def bindE_def getMach_def demo_mem1_def alloc_def)

lemma demo_clone_call1:
  "getNodeOpinion demo_env demo_params demo_claim 5 (Some 7) (Some demo_stack) () 3
     \<lparr>objs = [0 \<mapsto> Mach 0, 1 \<mapsto> Mach 1, 2 \<mapsto> Assertion 1, 3 \<mapsto> Mach 0], nextRef = 4\<rparr>
   = Inr ((ValidChildType, Some 4), demo_mem2)"
  by (simp add: getNodeOpinion_def executeAssertionAt_def bindE_def demo_exec demo_stub
      demo_params_def demo_claim_def demo_stack_def demo_mem2_def
      getMach_def getAssertion_def alloc_def store_def)

lemma demo_retry_opinionByExecution:
  "opinionByExecution demo_env (demo_retry demo_mem1) demo_node0 (Some 1)
   = Inr (ValidChildType, 3, Some 4, demo_mem2)"
  by (simp add: opinionByExecution_def demo_retry_def demo_chain_def demo_graph_missing_def
      getNode_def demo_succ_def demo_node0_def demo_inbox_def bindE_def
      demo_Machine_Clone1 demo_clone_call1 demo_AfterPendingTop del: One_nat_def)

lemma demo_retry_prepared_empty: "preparedAssertions (demo_retry H) h = None"
  by (simp add: demo_retry_def)

lemma demo_retry_chooseOpinion:
  "chooseOpinion demo_env (demo_retry demo_mem1) demo_node0
     (successorOf (nodeGraph (chain (demo_retry demo_mem1))) demo_node0)
   = Inr (ValidChildType, 3, Some 4, demo_mem2)"
  by (simp add: chooseOpinion_def demo_retry_successorOf demo_retry_opinionByExecution
      demo_retry_prepared_empty del: One_nat_def)

lemma demo_retry_lookup:
  "nodeFromHash (nodeGraph (chain (demo_retry H)))
     (successorHashes demo_node0 ! childTypeIndex demo_env ValidChildType) = None"
  by (simp add: demo_index demo_node0_def demo_retry_def demo_chain_def demo_graph_missing_def)

lemma demo_retry_not_leaf:
  "\<not> IsLeaf (nodeGraph (chain (demo_retry H))) (knownValidNode (chain (demo_retry H)))"
  by (simp add: IsLeaf_def demo_retry_def demo_chain_def demo_graph_missing_def)

lemma demo_update_missing:
  "updateCurrent demo_env (demo_thread demo_graph_missing) = Inr (demo_retry demo_mem1, [])"
  using updateCurrent_not_found
    [OF demo_getNode0_missing demo_chooseOpinion_missing demo_index_lt demo_lookup_missing]
  by (simp add: demo_retry_def demo_thread_def)

lemma demo_update_retry:
  "updateCurrent demo_env (demo_retry demo_mem1) = Inr (demo_retry demo_mem2, [])"
  using updateCurrent_not_found
    [OF demo_retry_getNode0 demo_retry_chooseOpinion demo_index_lt demo_retry_lookup]
  by (simp add: demo_retry_def)

theorem updateCurrent_missing_node_not_fatal:
  "nodeFromHash demo_graph_missing 34 = None
   \<and> updateCurrent demo_env (demo_thread demo_graph_missing) = Inr (demo_retry demo_mem1, [])
   \<and> updateCurrent demo_env (demo_retry demo_mem1) = Inr (demo_retry demo_mem2, [])
   \<and> knownValidNode (chain (demo_retry demo_mem2)) = knownValidNode (chain (demo_thread demo_graph_missing))
   \<and> catchUp 2 demo_env (demo_thread demo_graph_missing) = None"
proof -
  have "catchUp 2 demo_env (demo_thread demo_graph_missing) = catchUp 1 demo_env (demo_retry demo_mem1)"
    using catchUp_retry [OF demo_not_leaf demo_update_missing, of 1]
    by (simp add: numeral_2_eq_2 del: catchUp.simps)
  also have "\<dots> = catchUp 0 demo_env (demo_retry demo_mem2)"
    using catchUp_retry [OF demo_retry_not_leaf demo_update_retry, of 0]
    by (simp del: catchUp.simps)
  finally have "catchUp 2 demo_env (demo_thread demo_graph_missing) = None" by simp
  then show ?thesis
    by (simp add: demo_update_missing demo_update_retry)
       (simp add: demo_graph_missing_def demo_retry_def demo_thread_def demo_chain_def)
qed

subsection \<open>The pointer moves to a direct successor\<close>

text \<open>
  What a successful \<^verbatim>\<open>advanceTo\<close> does to the observer: the pointer is on the node
  found, and that node is written with its hash and successor hashes as they were, so
  the successor edges and the depths of the graph stay.
\<close>

lemma advanceTo_Inr:
  assumes "advanceTo T cur c newOpinion nextMachine validExecution = Inr (T', calls)"
  shows "\<exists>cn cn'. nodes (nodeGraph (chain T)) c = Some cn \<and> hash cn' = hash cn
           \<and> successorHashes cn' = successorHashes cn
           \<and> chain T' = (chain T)\<lparr>knownValidNode := c,
                 nodeGraph := (nodeGraph (chain T))\<lparr>nodes := (nodes (nodeGraph (chain T)))(c \<mapsto> cn')\<rparr>\<rparr>"
proof -
  from assms obtain cn where cn: "getNode (nodeGraph (chain T)) (Some c) = Inr cn"
    by (cases "getNode (nodeGraph (chain T)) (Some c)") (auto simp: advanceTo_def bindE_def Let_def)
  then have n: "nodes (nodeGraph (chain T)) c = Some cn"
    by (auto simp: getNode_def split: option.splits)
  show ?thesis
  proof (cases "newOpinion = ValidChildType")
    case True
    with assms cn have
      "chain T' = (chain T)\<lparr>knownValidNode := c,
          nodeGraph := (nodeGraph (chain T))\<lparr>nodes := (nodes (nodeGraph (chain T)))
             (c \<mapsto> cn\<lparr>Node.machine := Some nextMachine, Node.assertion := validExecution\<rparr>)\<rparr>\<rparr>"
      by (auto simp: advanceTo_def bindE_def Let_def)
    with n show ?thesis
      by (intro exI [of _ cn] exI [of _ "cn\<lparr>Node.machine := Some nextMachine, Node.assertion := validExecution\<rparr>"]) simp
  next
    case False
    with assms cn obtain m where m: "Node.machine cur = Some m"
      by (cases "Node.machine cur") (auto simp: advanceTo_def bindE_def Let_def)
    with False assms cn obtain m' H where "Machine_Clone (mem T) m = Inr (m', H)"
      by (cases "Machine_Clone (mem T) m") (auto simp: advanceTo_def bindE_def Let_def)
    with False assms cn m have
      "chain T' = (chain T)\<lparr>knownValidNode := c,
          nodeGraph := (nodeGraph (chain T))\<lparr>nodes := (nodes (nodeGraph (chain T)))
             (c \<mapsto> cn\<lparr>Node.machine := Some m'\<rparr>)\<rparr>\<rparr>"
      by (auto simp: advanceTo_def bindE_def Let_def)
    with n show ?thesis
      by (intro exI [of _ cn] exI [of _ "cn\<lparr>Node.machine := Some m'\<rparr>"]) simp
  qed
qed

lemma directSuccessor_update:
  assumes "nodes g c = Some cn" and "hash cn' = hash cn" and "successorHashes cn' = successorHashes cn"
  shows "directSuccessor (g\<lparr>nodes := (nodes g)(c \<mapsto> cn')\<rparr>) a b = directSuccessor g a b"
  using assms by (auto simp: directSuccessor_def split: option.splits)

lemma depthFrom_update:
  assumes "nodes g c = Some cn" and "hash cn' = hash cn" and "successorHashes cn' = successorHashes cn"
    and "depthFrom g root a d"
  shows "depthFrom (g\<lparr>nodes := (nodes g)(c \<mapsto> cn')\<rparr>) root a d"
  using assms(4)
proof (induction rule: depthFrom.induct)
  case depth_root
  show ?case by (rule depthFrom.depth_root)
next
  case (depth_step a d b)
  from depth_step.hyps(2) have "directSuccessor (g\<lparr>nodes := (nodes g)(c \<mapsto> cn')\<rparr>) a b"
    by (simp add: directSuccessor_update [OF assms(1-3)])
  with depth_step.IH show ?case by (rule depthFrom.depth_step)
qed

lemma updateCurrent_found:
  assumes "getNode (nodeGraph (chain T)) (Some (knownValidNode (chain T))) = Inr cur"
    and "chooseOpinion env T cur (successorOf (nodeGraph (chain T)) cur)
           = Inr (newOpinion, nextMachine, validExecution, H)"
    and "nodeFromHash (nodeGraph (chain T)) (successorHashes cur ! childTypeIndex env newOpinion)
           = Some correctNode"
    and "updateCurrent env T = Inr (T', calls)"
  shows "childTypeIndex env newOpinion < length (successorHashes cur)
       \<and> advanceTo (T\<lparr>mem := H, preparingAssertions := Map.empty, preparedAssertions := Map.empty\<rparr>)
            cur correctNode newOpinion nextMachine validExecution = Inr (T', calls)"
  using assms by (auto simp: updateCurrent_def bindE_def Let_def split: if_splits)

lemma demo_getNode2:
  "getNode (nodeGraph (chain (demo_thread demo_graph))) (Some 2) = Inr (demo_succ 34 ValidChildType)"
  by (simp add: demo_thread_def demo_chain_def demo_graph_def getNode_def)

lemma demo_hash2:
  "hash (demo_succ 34 ValidChildType) = successorHashes demo_node0 ! childTypeIndex demo_env ValidChildType"
  by (simp add: demo_succ_def demo_node0_def demo_index)

lemma demo_advanceTo:
  "advanceTo ((demo_thread demo_graph)\<lparr>mem := demo_mem1, preparingAssertions := Map.empty,
        preparedAssertions := Map.empty\<rparr>) demo_node0 2 ValidChildType 1 (Some 2)
   = Inr (demo_advanced, demo_calls)"
  by (simp add: advanceTo_def demo_thread_def demo_chain_def demo_graph_def getNode_def bindE_def
      demo_advanced_def demo_calls_def demo_node2_def demo_succ_def del: One_nat_def)

lemma demo_update:
  "updateCurrent demo_env (demo_thread demo_graph) = Inr (demo_advanced, demo_calls)"
  by (simp add: updateCurrent_def demo_getNode0 demo_chooseOpinion demo_index_lt demo_lookup
      demo_advanceTo bindE_def del: One_nat_def)

lemma demo_kvn: "knownValidNode (chain (demo_thread g)) = 0"
  by (simp add: demo_thread_def demo_chain_def)

lemma demo_nodeGraph: "nodeGraph (chain (demo_thread g)) = g"
  by (simp add: demo_thread_def demo_chain_def)

text \<open>
  C1: in a run of \<^verbatim>\<open>updateCurrent\<close> that finds the node for the successor hash of the
  chosen child type and returns, the known valid node becomes that node. When the node
  registered under the hash carries that hash, it is a direct successor of the node the
  pointer was on, in the graph before and in the graph after, and if the old node was at
  depth \<open>d\<close> from a root then the new one is at depth \<open>d + 1\<close> from it.
\<close>

theorem updateCurrent_moves_to_direct_successor:
  assumes "getNode (nodeGraph (chain T)) (Some (knownValidNode (chain T))) = Inr cur"
    and "chooseOpinion env T cur (successorOf (nodeGraph (chain T)) cur)
           = Inr (newOpinion, nextMachine, validExecution, H)"
    and "nodeFromHash (nodeGraph (chain T)) (successorHashes cur ! childTypeIndex env newOpinion)
           = Some correctNode"
    and "getNode (nodeGraph (chain T)) (Some correctNode) = Inr cn"
    and "hash cn = successorHashes cur ! childTypeIndex env newOpinion"
    and "updateCurrent env T = Inr (T', calls)"
  shows "knownValidNode (chain T') = correctNode
       \<and> directSuccessor (nodeGraph (chain T)) (knownValidNode (chain T)) (knownValidNode (chain T'))
       \<and> directSuccessor (nodeGraph (chain T')) (knownValidNode (chain T)) (knownValidNode (chain T'))
       \<and> (\<forall>root d. depthFrom (nodeGraph (chain T)) root (knownValidNode (chain T)) d
             \<longrightarrow> depthFrom (nodeGraph (chain T')) root (knownValidNode (chain T')) (Suc d))"
proof -
  let ?g = "nodeGraph (chain T)"
  let ?T1 = "T\<lparr>mem := H, preparingAssertions := Map.empty, preparedAssertions := Map.empty\<rparr>"
  from updateCurrent_found [OF assms(1,2,3,6)]
  have idx: "childTypeIndex env newOpinion < length (successorHashes cur)"
    and adv: "advanceTo ?T1 cur correctNode newOpinion nextMachine validExecution = Inr (T', calls)"
    by simp_all
  from advanceTo_Inr [OF adv] obtain cn0 cn' where
    n0: "nodes ?g correctNode = Some cn0" and h: "hash cn' = hash cn0"
    and sh: "successorHashes cn' = successorHashes cn0"
    and ch: "chain T' = (chain T)\<lparr>knownValidNode := correctNode,
                 nodeGraph := ?g\<lparr>nodes := (nodes ?g)(correctNode \<mapsto> cn')\<rparr>\<rparr>"
    by auto
  from ch have kv: "knownValidNode (chain T') = correctNode"
    and g': "nodeGraph (chain T') = ?g\<lparr>nodes := (nodes ?g)(correctNode \<mapsto> cn')\<rparr>"
    by simp_all
  from assms(1) have ncur: "nodes ?g (knownValidNode (chain T)) = Some cur"
    by (auto simp: getNode_def split: option.splits)
  from assms(4) have ncn: "nodes ?g correctNode = Some cn"
    by (auto simp: getNode_def split: option.splits)
  from idx assms(5) have "hash cn \<in> set (successorHashes cur)" by simp
  with ncur ncn have ds: "directSuccessor ?g (knownValidNode (chain T)) correctNode"
    by (simp add: directSuccessor_def)
  then have ds': "directSuccessor (nodeGraph (chain T')) (knownValidNode (chain T)) correctNode"
    by (simp add: g' directSuccessor_update [OF n0 h sh])
  have depth: "depthFrom (nodeGraph (chain T')) root correctNode (Suc d)"
    if "depthFrom ?g root (knownValidNode (chain T)) d" for root d
  proof -
    from depthFrom_update [OF n0 h sh that]
    have "depthFrom (nodeGraph (chain T')) root (knownValidNode (chain T)) d" by (simp add: g')
    then show ?thesis using ds' by (rule depthFrom.depth_step)
  qed
  from kv ds ds' depth show ?thesis by simp
qed

text \<open>On the sample graph the pointer moves from node 0 to node 2, at depth 1.\<close>

theorem updateCurrent_moves_to_direct_successor_witness:
  "updateCurrent demo_env (demo_thread demo_graph) = Inr (demo_advanced, demo_calls)
   \<and> knownValidNode (chain (demo_thread demo_graph)) = 0
   \<and> knownValidNode (chain demo_advanced) = 2
   \<and> directSuccessor demo_graph 0 2
   \<and> depthFrom (nodeGraph (chain demo_advanced)) 0 2 1"
proof -
  have d0: "depthFrom (nodeGraph (chain (demo_thread demo_graph))) 0
              (knownValidNode (chain (demo_thread demo_graph))) 0"
    by (simp add: demo_kvn depthFrom.depth_root)
  from updateCurrent_moves_to_direct_successor
    [OF demo_getNode0 demo_chooseOpinion demo_lookup demo_getNode2 demo_hash2 demo_update] d0
  show ?thesis
    by (auto simp: demo_update demo_kvn demo_nodeGraph)
qed

section \<open>Theorems about prepareAssertion\<close>

text \<open>
  The objects that a run of \<^verbatim>\<open>prepareAssertion\<close> returning a prepared assertion leaves
  on the heap, by reference.
\<close>

lemma prepareAssertion_Some:
  assumes ret: "prepareAssertion env C H = Inr (Some r, H')"
    and cur: "getNode (nodeGraph C) (Some (knownValidNode C)) = Inr cur"
  shows "IsLeaf (nodeGraph C) (knownValidNode C) \<and> (\<exists>m0. Node.machine cur = Some m0)"
  using ret cur
  by (auto simp: prepareAssertion_def bindE_def Let_def alloc_def split: if_splits option.splits)

lemma getMach_after_allocs:
  assumes "getMach H m0 = Inr ms0"
    and "getMach (snd (alloc (snd (alloc H (BigInt d))) (ProtoData v))) m0 = Inr ms1"
  shows "ms1 = ms0"
  using assms by (auto simp: getMach_def alloc_def split: option.splits obj.splits if_splits)


lemma prepareAssertion_Inr:
  assumes ret: "prepareAssertion env C H = Inr (Some r, H')"
    and cur: "getNode (nodeGraph C) (Some (knownValidNode C)) = Inr cur"
    and m0: "Node.machine cur = Some m0"
    and ms: "getMach H m0 = Inr ms0"
    and ex: "ExecuteAssertion env ms0 (MaxExecutionSteps (nodeGraph C))
               (currentTimeBounds env (latestBlockNumber C))
               (ValueForSubseq (pendingInbox C) (PendingTop (vmProtoData cur))
                  (GetTopHash (pendingInbox C))) = (a, stepsRun, m')"
  shows "r = nextRef H + 6
       \<and> objs H' (nextRef H + 6) = Some (Prepared
            \<lparr>leafHash = hash cur, prevPrevLeafHash = prevHash cur, prevDataHash = nodeDataHash cur,
             prevDeadline = nextRef H, prevChildType = linkType cur, beforeState = nextRef H + 1,
             params = nextRef H + 4, claim = nextRef H + 5, assertion = nextRef H + 3,
             machine = nextRef H + 2\<rparr>)
       \<and> objs H' (nextRef H + 1) = Some (ProtoData (vmProtoData cur))
       \<and> objs H' (nextRef H + 2) = Some (Mach m')
       \<and> objs H' (nextRef H + 3) = Some (Assertion a)
       \<and> (DidInboxInsn env a \<longrightarrow>
            (\<exists>st. Substack (pendingInbox C) (PendingTop (vmProtoData cur)) (GetTopHash (pendingInbox C))
                    = Some st
              \<and> objs H' (nextRef H + 4) = Some (Params
                   \<lparr>NumSteps = stepsRun, TimeBounds = currentTimeBounds env (latestBlockNumber C),
                    ImportedMessageCount = TopCount st\<rparr>)
              \<and> objs H' (nextRef H + 5) = Some (Claim
                   \<lparr>AfterPendingTop = GetTopHash (pendingInbox C),
                    ImportedMessagesSlice = MessageStack.GetTopHash st,
                    AssertionStub = Stub env a\<rparr>)))
       \<and> (\<not> DidInboxInsn env a \<longrightarrow>
              objs H' (nextRef H + 4) = Some (Params
                   \<lparr>NumSteps = stepsRun, TimeBounds = currentTimeBounds env (latestBlockNumber C),
                    ImportedMessageCount = 0\<rparr>)
              \<and> objs H' (nextRef H + 5) = Some (Claim
                   \<lparr>AfterPendingTop = PendingTop (vmProtoData cur),
                    ImportedMessagesSlice = emptyTupleHash env,
                    AssertionStub = Stub env a\<rparr>))"
  using ret cur m0 ms ex
  by (auto simp: prepareAssertion_def bindE_def Let_def alloc_def store_def Machine_Clone_def
        executeAssertionAt_def getMach_def getAssertion_def eval_nat_numeral
      split: option.splits obj.splits if_splits sum.splits)

text \<open>
  C8: the prepared assertion that \<^verbatim>\<open>prepareAssertion\<close> returns holds the assertion of the
  execution of the node's machine and the machine after it; \<^verbatim>\<open>params.NumSteps\<close> is the
  number of steps run and \<^verbatim>\<open>claim.AssertionStub\<close> the stub of the assertion. When the
  assertion did an inbox instruction, \<^verbatim>\<open>params.ImportedMessageCount\<close> is the count of the
  message stack, \<^verbatim>\<open>claim.AfterPendingTop\<close> the top hash of the inbox and
  \<^verbatim>\<open>claim.ImportedMessagesSlice\<close> the top hash of the message stack; when it did not,
  the count is 0, \<^verbatim>\<open>claim.AfterPendingTop\<close> is the pending top of the node before the
  execution and \<^verbatim>\<open>claim.ImportedMessagesSlice\<close> the hash of the empty tuple.
\<close>

theorem prepareAssertion_params_and_claim:
  assumes "prepareAssertion env C H = Inr (Some r, H')"
    and "getNode (nodeGraph C) (Some (knownValidNode C)) = Inr cur"
    and "Node.machine cur = Some m0"
    and "getMach H m0 = Inr ms0"
    and "ExecuteAssertion env ms0 (MaxExecutionSteps (nodeGraph C))
               (currentTimeBounds env (latestBlockNumber C))
               (ValueForSubseq (pendingInbox C) (PendingTop (vmProtoData cur))
                  (GetTopHash (pendingInbox C))) = (a, stepsRun, m')"
  shows "\<exists>p ps cl.
           getPrepared H' r = Inr p \<and> getParams H' (params p) = Inr ps
         \<and> getClaim H' (claim p) = Inr cl
         \<and> getAssertion H' (preparedAssertion.assertion p) = Inr a
         \<and> getMach H' (preparedAssertion.machine p) = Inr m'
         \<and> getProtoData H' (beforeState p) = Inr (vmProtoData cur)
         \<and> leafHash p = hash cur
         \<and> NumSteps ps = stepsRun
         \<and> TimeBounds ps = currentTimeBounds env (latestBlockNumber C)
         \<and> AssertionStub cl = Stub env a
         \<and> (DidInboxInsn env a \<longrightarrow>
               (\<exists>st. Substack (pendingInbox C) (PendingTop (vmProtoData cur))
                        (GetTopHash (pendingInbox C)) = Some st
                   \<and> ImportedMessageCount ps = TopCount st
                   \<and> ImportedMessagesSlice cl = MessageStack.GetTopHash st)
               \<and> AfterPendingTop cl = GetTopHash (pendingInbox C))
         \<and> (\<not> DidInboxInsn env a \<longrightarrow>
               ImportedMessageCount ps = 0
               \<and> AfterPendingTop cl = PendingTop (vmProtoData cur)
               \<and> ImportedMessagesSlice cl = emptyTupleHash env)"
proof (cases "DidInboxInsn env a")
  case True
  with prepareAssertion_Inr [OF assms] show ?thesis
    by (auto simp: getPrepared_iff getParams_iff getClaim_iff getAssertion_iff getMach_iff
        getProtoData_iff)
next
  case False
  with prepareAssertion_Inr [OF assms] show ?thesis
    by (auto simp: getPrepared_iff getParams_iff getClaim_iff getAssertion_iff getMach_iff
        getProtoData_iff)
qed

text \<open>Both cases on the sample observer: a bound of 1000 steps, and of 10 steps.\<close>

lemma demo_leaf_getNode:
  "getNode (nodeGraph (demo_leaf_chain steps)) (Some (knownValidNode (demo_leaf_chain steps)))
   = Inr demo_node0"
  by (simp add: demo_leaf_chain_def demo_graph_def getNode_def)

lemma demo_node0_machine: "Node.machine demo_node0 = Some 0"
  by (simp add: demo_node0_def)

lemma demo_leaf_exec:
  "ExecuteAssertion demo_env 0 (MaxExecutionSteps (nodeGraph (demo_leaf_chain steps)))
     (currentTimeBounds demo_env (latestBlockNumber (demo_leaf_chain steps)))
     (ValueForSubseq (pendingInbox (demo_leaf_chain steps)) (PendingTop (vmProtoData demo_node0))
        (GetTopHash (pendingInbox (demo_leaf_chain steps))))
   = (min (unat steps) 100, of_nat (min (unat steps) 100), min (unat steps) 100)"
  by (simp add: demo_exec demo_leaf_chain_def)

lemma demo_did: "DidInboxInsn demo_env a = (50 < a)"
  by (simp add: demo_env_def)

lemma demo_tb: "currentTimeBounds demo_env b = (b, b + 10)"
  by (simp add: demo_env_def)

lemma demo_empty: "emptyTupleHash demo_env = 7"
  by (simp add: demo_env_def)

lemma demo_prepare100:
  "prepareAssertion demo_env (demo_leaf_chain 1000) demo_heap
   = Inr (Some 7, demo_prepared_heap 100 demo_params100 demo_claim100)"
  by (simp add: prepareAssertion_def getNode_def bindE_def Let_def IsLeaf_def
      demo_leaf_chain_def demo_graph_def demo_node0_def demo_inbox_def demo_stack_def
      Machine_Clone_def executeAssertionAt_def getMach_def getAssertion_def alloc_def store_def
      demo_heap_def demo_exec demo_stub demo_did demo_tb demo_empty
      demo_prepared_heap_def demo_prepared_def demo_params100_def demo_claim100_def
      del: One_nat_def)

lemma demo_prepare10:
  "prepareAssertion demo_env (demo_leaf_chain 10) demo_heap
   = Inr (Some 7, demo_prepared_heap 10 demo_params10 demo_claim10)"
  by (simp add: prepareAssertion_def getNode_def bindE_def Let_def IsLeaf_def
      demo_leaf_chain_def demo_graph_def demo_node0_def demo_inbox_def demo_stack_def
      Machine_Clone_def executeAssertionAt_def getMach_def getAssertion_def alloc_def store_def
      demo_heap_def demo_exec demo_stub demo_did demo_tb demo_empty
      demo_prepared_heap_def demo_prepared_def demo_params10_def demo_claim10_def
      del: One_nat_def)


lemma demo_leaf_substack:
  "Substack (pendingInbox (demo_leaf_chain steps)) 3 5 = Some demo_stack"
  by (simp add: demo_leaf_chain_def demo_inbox_def)

lemma demo_leaf_tops:
  "GetTopHash (pendingInbox (demo_leaf_chain steps)) = 5 \<and> PendingTop (vmProtoData demo_node0) = 3"
  by (simp add: demo_leaf_chain_def demo_inbox_def demo_node0_def)

lemma demo_stack_fields: "TopCount demo_stack = 2 \<and> MessageStack.GetTopHash demo_stack = 9"
  by (simp add: demo_stack_def)

theorem prepareAssertion_params_and_claim_witness:
  "prepareAssertion demo_env (demo_leaf_chain 1000) demo_heap
     = Inr (Some 7, demo_prepared_heap 100 demo_params100 demo_claim100)
   \<and> (\<exists>p ps cl.
         getPrepared (demo_prepared_heap 100 demo_params100 demo_claim100) 7 = Inr p
       \<and> getParams (demo_prepared_heap 100 demo_params100 demo_claim100) (params p) = Inr ps
       \<and> getClaim (demo_prepared_heap 100 demo_params100 demo_claim100) (claim p) = Inr cl
       \<and> NumSteps ps = 100 \<and> ImportedMessageCount ps = 2
       \<and> AfterPendingTop cl = 5 \<and> ImportedMessagesSlice cl = 9 \<and> AssertionStub cl = 100)
   \<and> prepareAssertion demo_env (demo_leaf_chain 10) demo_heap
     = Inr (Some 7, demo_prepared_heap 10 demo_params10 demo_claim10)
   \<and> (\<exists>p ps cl.
         getPrepared (demo_prepared_heap 10 demo_params10 demo_claim10) 7 = Inr p
       \<and> getParams (demo_prepared_heap 10 demo_params10 demo_claim10) (params p) = Inr ps
       \<and> getClaim (demo_prepared_heap 10 demo_params10 demo_claim10) (claim p) = Inr cl
       \<and> NumSteps ps = 10 \<and> ImportedMessageCount ps = 0
       \<and> AfterPendingTop cl = 3 \<and> ImportedMessagesSlice cl = 7 \<and> AssertionStub cl = 10)"
  using prepareAssertion_params_and_claim
          [OF demo_prepare100 demo_leaf_getNode demo_node0_machine demo_getMach demo_leaf_exec]
        prepareAssertion_params_and_claim
          [OF demo_prepare10 demo_leaf_getNode demo_node0_machine demo_getMach demo_leaf_exec]
  by (simp add: demo_prepare100 demo_prepare10 demo_did demo_stub demo_empty demo_leaf_substack
      demo_leaf_tops demo_stack_fields) blast

section \<open>Theorems about the loop of startOpinionUpdateThread\<close>

text \<open>
  The catch-up loop calls \<^verbatim>\<open>AdvancedKnownAssertion\<close> and \<^verbatim>\<open>AdvancedKnownValidNode\<close> only;
  \<^verbatim>\<open>AssertionPrepared\<close> is called with clones, each with the leaf hash of the prepared
  assertion cloned.
\<close>

lemma surfaced_Nil: "surfaced [] = []"
  by (simp add: surfaced_def)

lemma surfaced_append: "surfaced (a @ b) = surfaced a @ surfaced b"
  by (simp add: surfaced_def)

lemma surfaced_Cons: "surfaced ((lis, AssertionPrepared c) # calls) = c # surfaced calls"
  by (simp add: surfaced_def)

lemma surfaced_map_valid: "surfaced (map (\<lambda>l. (l, AdvancedKnownValidNode h)) ls) = []"
  by (induction ls) (simp_all add: surfaced_def)

lemma surfaced_map_assertion: "surfaced (map (\<lambda>l. (l, AdvancedKnownAssertion v h)) ls) = []"
  by (induction ls) (simp_all add: surfaced_def)

lemma advanceTo_surfaced:
  "advanceTo T cur c newOpinion nextMachine validExecution = Inr (T', calls) \<Longrightarrow> surfaced calls = []"
  by (auto simp: advanceTo_def bindE_Inr_iff Let_def surfaced_append surfaced_map_valid
      surfaced_map_assertion surfaced_Nil split: if_splits option.splits prod.splits)

lemma updateCurrent_surfaced:
  "updateCurrent env T = Inr (T', calls) \<Longrightarrow> surfaced calls = []"
  by (auto simp: updateCurrent_def bindE_Inr_iff Let_def surfaced_Nil
      split: if_splits option.splits prod.splits dest: advanceTo_surfaced)

lemma catchUp_surfaced:
  "catchUp n env T = Some (Inr (T', calls)) \<Longrightarrow> surfaced calls = []"
proof (induction n arbitrary: T T' calls)
  case 0
  then show ?case by simp
next
  case (Suc n)
  show ?case
  proof (cases "IsLeaf (nodeGraph (chain T)) (knownValidNode (chain T))")
    case True
    with Suc.prems show ?thesis by (simp add: surfaced_Nil)
  next
    case False
    with Suc.prems obtain T1 calls1 T2 calls2 where
      u: "updateCurrent env T = Inr (T1, calls1)"
      and c: "catchUp n env T1 = Some (Inr (T2, calls2))"
      and e: "calls = calls1 @ calls2"
      by (auto split: sum.splits option.splits prod.splits)
    from updateCurrent_surfaced [OF u] Suc.IH [OF c] e show ?thesis
      by (simp add: surfaced_append)
  qed
qed

lemma Clone_leafHash:
  assumes "Clone H r = Inr (c, H')" and "getPrepared H r = Inr p"
  shows "c = nextRef H + 4 \<and> nextRef H' = nextRef H + 5
       \<and> (\<exists>pc. getPrepared H' c = Inr pc \<and> leafHash pc = leafHash p)
       \<and> (\<forall>x. x < nextRef H \<longrightarrow> objs H' x = objs H x)
       \<and> (\<forall>p1. getPrepared H' r = Inr p1 \<longrightarrow> leafHash p1 = leafHash p)"
proof -
  from Clone_Inr [OF assms(1)] obtain p0 d bs ps cl where
    p0: "objs H r = Some (Prepared p0)"
    and c: "c = nextRef H + 4" and n: "nextRef H' = nextRef H + 5"
    and o: "objs H' = (objs H)
         (nextRef H \<mapsto> BigInt d, nextRef H + 1 \<mapsto> ProtoData bs, nextRef H + 2 \<mapsto> Params ps,
          nextRef H + 3 \<mapsto> Claim cl,
          nextRef H + 4 \<mapsto> Prepared
            \<lparr>leafHash = leafHash p0, prevPrevLeafHash = prevPrevLeafHash p0,
             prevDataHash = prevDataHash p0, prevDeadline = nextRef H,
             prevChildType = prevChildType p0, beforeState = nextRef H + 1,
             params = nextRef H + 2, claim = nextRef H + 3,
             assertion = preparedAssertion.assertion p0,
             machine = preparedAssertion.machine p0\<rparr>)"
    by blast
  from p0 assms(2) have pp: "p0 = p" by (simp add: getPrepared_iff)
  show ?thesis
    using c n o pp p0
    by (auto simp: getPrepared_iff split: if_splits)
qed

lemma notifyPrepared_frame:
  "notifyPrepared ls r H = Inr (calls, H') \<Longrightarrow> x < nextRef H \<Longrightarrow> objs H' x = objs H x"
proof (induction ls arbitrary: H calls)
  case Nil
  then show ?case by simp
next
  case (Cons lis rest)
  from Cons.prems(1) obtain c H1 calls' where
    cl: "Clone H r = Inr (c, H1)" and np: "notifyPrepared rest r H1 = Inr (calls', H')"
    by (auto simp: bindE_Inr_iff)
  from cl obtain p where p: "getPrepared H r = Inr p"
    by (auto simp: Clone_def bindE_Inr_iff)
  from Clone_leafHash [OF cl p] Cons.prems(2) have "nextRef H1 = nextRef H + 5" "objs H1 x = objs H x"
    by auto
  with Cons.IH [OF np, of ] Cons.prems(2) show ?case by simp
qed

lemma notifyPrepared_surfaced:
  "notifyPrepared ls r H = Inr (calls, H') \<Longrightarrow> getPrepared H r = Inr p \<Longrightarrow>
     c \<in> set (surfaced calls) \<Longrightarrow> \<exists>pc. getPrepared H' c = Inr pc \<and> leafHash pc = leafHash p"
proof (induction ls arbitrary: H calls p)
  case Nil
  then show ?case by (simp add: surfaced_Nil)
next
  case (Cons lis rest)
  from Cons.prems(1) obtain c1 H1 calls' where
    cl: "Clone H r = Inr (c1, H1)" and np: "notifyPrepared rest r H1 = Inr (calls', H')"
    and e: "calls = (lis, AssertionPrepared c1) # calls'"
    by (auto simp: bindE_Inr_iff)
  note cf = Clone_leafHash [OF cl Cons.prems(2)]
  from Cons.prems(3) e have "c = c1 \<or> c \<in> set (surfaced calls')" by (simp add: surfaced_Cons)
  then show ?case
  proof
    assume "c = c1"
    from cf obtain pc where pc: "getPrepared H1 c1 = Inr pc" "leafHash pc = leafHash p" by blast
    from cf have "c1 < nextRef H1" by simp
    from notifyPrepared_frame [OF np this] pc \<open>c = c1\<close> show ?thesis
      by (auto simp: getPrepared_iff)
  next
    assume in': "c \<in> set (surfaced calls')"
    then have "rest \<noteq> []" using np by (cases rest) (auto simp: surfaced_Nil)
    then obtain l2 rest2 where r2: "rest = l2 # rest2" by (cases rest) auto
    with np obtain p1 where p1: "getPrepared H1 r = Inr p1"
      by (auto simp: bindE_Inr_iff Clone_def)
    with cf have "leafHash p1 = leafHash p" by blast
    with Cons.IH [OF np p1 in'] show ?thesis by simp
  qed
qed

lemma prepareNext_surfaced:
  assumes "prepareNext env T = Inr (T', calls, started)" and "c \<in> set (surfaced calls)"
  shows "\<exists>node r p pc.
           getNode (nodeGraph (chain T)) (Some (knownValidNode (chain T))) = Inr node
         \<and> IsLeaf (nodeGraph (chain T)) (knownValidNode (chain T))
         \<and> preparedAssertions T (hash node) = Some r
         \<and> getPrepared (mem T) r = Inr p
         \<and> getPrepared (mem T') c = Inr pc \<and> leafHash pc = leafHash p
         \<and> chain T' = chain T"
proof -
  from assms(1) obtain node where
    n: "getNode (nodeGraph (chain T)) (Some (knownValidNode (chain T))) = Inr node"
    by (auto simp: prepareNext_def bindE_Inr_iff Let_def)
  have ne: "surfaced calls \<noteq> []" using assms(2) by auto
  from assms(1) n ne obtain b where b: "preparingAssertions T (hash node) = Some b"
    by (cases "preparingAssertions T (hash node)")
       (auto simp: prepareNext_def bindE_Inr_iff Let_def surfaced_Nil split: option.splits if_splits)
  from assms(1) n ne b obtain r where r: "preparedAssertions T (hash node) = Some r"
    by (cases "preparedAssertions T (hash node)")
       (auto simp: prepareNext_def bindE_def Let_def surfaced_Nil)
  from assms(1) n ne b r have leaf: "IsLeaf (nodeGraph (chain T)) (knownValidNode (chain T))"
    by (auto simp: prepareNext_def bindE_def Let_def surfaced_Nil split: if_splits)
  from assms(1) n b r leaf obtain H where
    np: "notifyPrepared (listeners (chain T)) r (mem T) = Inr (calls, H)" and T': "T' = T\<lparr>mem := H\<rparr>"
    by (auto simp: prepareNext_def bindE_def Let_def split: sum.splits)
  from np ne obtain p where p: "getPrepared (mem T) r = Inr p"
    by (cases "listeners (chain T)") (auto simp: surfaced_Nil bindE_Inr_iff Clone_def)
  from notifyPrepared_surfaced [OF np p assms(2)] obtain pc where
    "getPrepared H c = Inr pc" "leafHash pc = leafHash p" by blast
  with n leaf r p T' show ?thesis by auto
qed

text \<open>
  C6, as amended: a prepared assertion that arrives on the channel is stored in
  \<^verbatim>\<open>preparedAssertions\<close> under its leaf hash whatever the known valid node is, and no
  listener is called then. In a round of the ticker, every prepared assertion shown to a
  listener is a clone of the entry stored under the hash of the known valid node reached
  by the catch-up loop, which is a leaf, and has the leaf hash of that entry: an entry
  stored under another hash is not shown.
\<close>

theorem stale_result_stored_not_surfaced:
  "(\<forall>p. getPrepared (mem T) r = Inr p \<longrightarrow>
       threadStep fuel env (ChanReceive (Some r)) T
         = Some (Inr (T\<lparr>preparedAssertions := (preparedAssertions T)(leafHash p \<mapsto> r)\<rparr>, [], False)))
   \<and> (\<forall>T' calls started c.
         threadStep fuel env TickerC T = Some (Inr (T', calls, started)) \<and> c \<in> set (surfaced calls)
         \<longrightarrow> (\<exists>T1 calls1 node r1 p1 pc.
                catchUp fuel env T = Some (Inr (T1, calls1))
              \<and> chain T' = chain T1
              \<and> getNode (nodeGraph (chain T1)) (Some (knownValidNode (chain T1))) = Inr node
              \<and> IsLeaf (nodeGraph (chain T1)) (knownValidNode (chain T1))
              \<and> preparedAssertions T1 (hash node) = Some r1
              \<and> getPrepared (mem T1) r1 = Inr p1
              \<and> getPrepared (mem T') c = Inr pc \<and> leafHash pc = leafHash p1))"
proof (intro conjI allI impI)
  fix p assume "getPrepared (mem T) r = Inr p"
  then show "threadStep fuel env (ChanReceive (Some r)) T
         = Some (Inr (T\<lparr>preparedAssertions := (preparedAssertions T)(leafHash p \<mapsto> r)\<rparr>, [], False))"
    by (simp add: threadStep_def bindE_def)
next
  fix T' calls started c
  assume a: "threadStep fuel env TickerC T = Some (Inr (T', calls, started)) \<and> c \<in> set (surfaced calls)"
  then obtain T1 calls1 where cu: "catchUp fuel env T = Some (Inr (T1, calls1))"
    by (auto simp: threadStep_def split: option.splits sum.splits)
  with a obtain calls2 where pn: "prepareNext env T1 = Inr (T', calls2, started)"
    and e: "calls = calls1 @ calls2"
    by (auto simp: threadStep_def bindE_Inr_iff)
  from a e catchUp_surfaced [OF cu] have "c \<in> set (surfaced calls2)"
    by (simp add: surfaced_append)
  from prepareNext_surfaced [OF pn this] cu
  show "\<exists>T1 calls1 node r1 p1 pc.
                catchUp fuel env T = Some (Inr (T1, calls1))
              \<and> chain T' = chain T1
              \<and> getNode (nodeGraph (chain T1)) (Some (knownValidNode (chain T1))) = Inr node
              \<and> IsLeaf (nodeGraph (chain T1)) (knownValidNode (chain T1))
              \<and> preparedAssertions T1 (hash node) = Some r1
              \<and> getPrepared (mem T1) r1 = Inr p1
              \<and> getPrepared (mem T') c = Inr pc \<and> leafHash pc = leafHash p1"
    by blast
qed

text \<open>
  The clone shown in a round of the ticker on \<open>demo_current\<close>, and the arrival of
  \<open>demo_pa\<close> on \<open>demo_stale\<close>.
\<close>

lemma demo_stale_getPrepared: "getPrepared (mem demo_stale) 6 = Inr demo_pa"
  by (simp add: demo_stale_def demo_getPrepared)

lemma demo_stale_node:
  "getNode (nodeGraph (chain demo_stale)) (Some (knownValidNode (chain demo_stale)))
   = Inr (demo_succ 34 ValidChildType)"
  by (simp add: demo_stale_def demo_chain_def demo_graph_def getNode_def)

lemma demo_stale_receive:
  "threadStep fuel demo_env (ChanReceive (Some 6)) demo_stale
   = Some (Inr (demo_stale\<lparr>preparedAssertions := [21 \<mapsto> 6]\<rparr>, [], False))"
  by (simp add: threadStep_def bindE_def demo_stale_getPrepared)
     (simp add: demo_stale_def demo_pa_def)

lemma demo_current_catchUp: "catchUp 1 demo_env demo_current = Some (Inr (demo_current, []))"
  by (simp add: demo_current_def demo_leaf_chain_def IsLeaf_def)

lemma demo_current_prepareNext:
  "prepareNext demo_env demo_current
   = Inr (demo_current\<lparr>mem := demo_clone_heap\<rparr>, [(1, AssertionPrepared 11)], False)"
  by (simp add: prepareNext_def demo_current_def demo_leaf_chain_def demo_graph_def getNode_def
      demo_node0_def IsLeaf_def bindE_def demo_Clone del: One_nat_def)

lemma demo_current_tick:
  "threadStep 1 demo_env TickerC demo_current
   = Some (Inr (demo_current\<lparr>mem := demo_clone_heap\<rparr>, [(1, AssertionPrepared 11)], False))"
  by (simp add: threadStep_def demo_current_catchUp demo_current_prepareNext bindE_def
      del: catchUp.simps One_nat_def)

lemma demo_current_node:
  "getNode (nodeGraph (chain demo_current)) (Some (knownValidNode (chain demo_current)))
   = Inr demo_node0"
  by (simp add: demo_current_def demo_leaf_chain_def demo_graph_def getNode_def)

lemma demo_current_entry: "preparedAssertions demo_current (hash demo_node0) = Some 6"
  by (simp add: demo_current_def demo_node0_def)

lemma demo_current_mem: "mem demo_current = demo_pa_heap"
  by (simp add: demo_current_def)

theorem stale_result_stored_not_surfaced_witness:
  "threadStep 1 demo_env (ChanReceive (Some 6)) demo_stale
     = Some (Inr (demo_stale\<lparr>preparedAssertions := (preparedAssertions demo_stale)(leafHash demo_pa \<mapsto> 6)\<rparr>,
                  [], False))
   \<and> threadStep 1 demo_env TickerC demo_current
     = Some (Inr (demo_current\<lparr>mem := demo_clone_heap\<rparr>, [(1, AssertionPrepared 11)], False))
   \<and> (\<exists>pc. getPrepared demo_clone_heap 11 = Inr pc \<and> leafHash pc = 21)"
proof -
  have r: "threadStep 1 demo_env (ChanReceive (Some 6)) demo_stale
     = Some (Inr (demo_stale\<lparr>preparedAssertions := (preparedAssertions demo_stale)(leafHash demo_pa \<mapsto> 6)\<rparr>,
                  [], False))"
    using stale_result_stored_not_surfaced [of demo_stale 6 1 demo_env] demo_stale_getPrepared
    by blast
  have "11 \<in> set (surfaced [(1, AssertionPrepared 11)])" by (simp add: surfaced_def)
  with stale_result_stored_not_surfaced [of demo_current 6 1 demo_env] demo_current_tick
  obtain T1 calls1 node r1 p1 pc where
    c: "catchUp 1 demo_env demo_current = Some (Inr (T1, calls1))"
    and n: "getNode (nodeGraph (chain T1)) (Some (knownValidNode (chain T1))) = Inr node"
    and e: "preparedAssertions T1 (hash node) = Some r1"
    and g: "getPrepared (mem T1) r1 = Inr p1"
    and pc: "getPrepared (mem (demo_current\<lparr>mem := demo_clone_heap\<rparr>)) 11 = Inr pc"
      "leafHash pc = leafHash p1"
    by blast
  from c demo_current_catchUp have T1: "T1 = demo_current" by (simp del: catchUp.simps One_nat_def)
  from n have node: "node = demo_node0" by (simp add: T1 demo_current_node)
  from e have r1: "r1 = 6" by (simp add: T1 node demo_current_entry)
  from g have "p1 = demo_pa" by (simp add: T1 r1 demo_current_mem demo_getPrepared)
  with pc have "getPrepared demo_clone_heap 11 = Inr pc \<and> leafHash pc = 21"
    by (simp add: demo_pa_def)
  with r demo_current_tick show ?thesis by blast
qed

text \<open>
  The result of a build for a leaf that is behind the pointer is not discarded: the
  known valid node has hash 34, the prepared assertion is for leaf 21, and it is in the
  map after the round.
\<close>

theorem stale_result_is_stored:
  "getNode (nodeGraph (chain demo_stale)) (Some (knownValidNode (chain demo_stale)))
     = Inr (demo_succ 34 ValidChildType)
   \<and> getPrepared (mem demo_stale) 6 = Inr demo_pa
   \<and> leafHash demo_pa \<noteq> hash (demo_succ 34 ValidChildType)
   \<and> threadStep 1 demo_env (ChanReceive (Some 6)) demo_stale
       = Some (Inr (demo_stale\<lparr>preparedAssertions := [21 \<mapsto> 6]\<rparr>, [], False))
   \<and> preparedAssertions (demo_stale\<lparr>preparedAssertions := [21 \<mapsto> 6]\<rparr>) (leafHash demo_pa) = Some 6"
  by (simp add: demo_stale_node demo_stale_getPrepared demo_stale_receive)
     (simp add: demo_pa_def demo_succ_def)

end
